theory Spec2Isabelle
  imports Complex_Main
begin

section \<open>JavaScript values used by the virtualizer\<close>

text \<open>
  Numbers that are offsets and sizes are modelled as \<^typ>\<open>real\<close> (finite, exact
  arithmetic); loop counters and array indices as \<^typ>\<open>nat\<close>; numbers that
  a caller supplies and that may be negative (the item count, the index handed to
  \<open>scrollToIndex\<close>, the bounds of the binary search) as \<^typ>\<open>int\<close>.
\<close>

datatype error = TypeError

text \<open>\<open>type Key = number | string\<close>; a numeric key is an integer here.\<close>

datatype key = KNum int | KStr string

text \<open>
  A key used in \<open>measuredCache[key]\<close> is converted to a property name:
  a string is taken as it is, a number is printed in decimal.
\<close>

definition digit_char :: "nat \<Rightarrow> char" where
  "digit_char d = ''0123456789'' ! d"

fun dec_nat :: "nat \<Rightarrow> string" where
  "dec_nat n = (if n < 10 then [digit_char n] else dec_nat (n div 10) @ [digit_char (n mod 10)])"

declare dec_nat.simps [simp del]

definition dec_int :: "int \<Rightarrow> string" where
  "dec_int n = (if n < 0 then CHR ''-'' # dec_nat (nat (- n)) else dec_nat (nat n))"

fun prop_name :: "key \<Rightarrow> string" where
  "prop_name (KNum n) = dec_int n"
| "prop_name (KStr s) = s"

text \<open>
  A JavaScript array is a list of slots; a slot that was never written (a hole) and an
  index outside the array both read as \<open>undefined\<close>, which is \<open>None\<close>.
\<close>

definition arr_get :: "'a option list \<Rightarrow> int \<Rightarrow> 'a option" where
  "arr_get xs i = (if 0 \<le> i \<and> i < int (length xs) then xs ! nat i else None)"

text \<open>\<open>xs[i] = v\<close>: writing past the end extends the array, leaving holes.\<close>

definition arr_set :: "'a option list \<Rightarrow> nat \<Rightarrow> 'a \<Rightarrow> 'a option list" where
  "arr_set xs i v =
     (if i < length xs then xs[i := Some v]
      else xs @ replicate (i - length xs) None @ [Some v])"

text \<open>\<open>xs.slice(0, n)\<close> for \<open>n \<ge> 0\<close>.\<close>

definition slice0 :: "'a option list \<Rightarrow> nat \<Rightarrow> 'a option list" where
  "slice0 xs n = take n xs"

section \<open>Measurement store\<close>

text \<open>
  \<open>index.js\<close> builds spans \<open>{ index, start, size, end }\<close>;
  \<open>index.ts\<close> adds the \<open>key\<close> (interface \<open>Measurement\<close>).
\<close>

record span =
  index :: nat
  start :: real
  size_m :: real
  end_m :: real

record measurement = span +
  key :: key

type_synonym measured_cache = "string \<rightharpoonup> real"

subsection \<open>\<open>index.js\<close>: every recomputation starts from index 0\<close>

function measurements_loop_js ::
  "int \<Rightarrow> (nat \<Rightarrow> real) \<Rightarrow> (nat \<Rightarrow> key) \<Rightarrow> real \<Rightarrow> measured_cache \<Rightarrow>
   nat \<Rightarrow> span option list \<Rightarrow> span option list" where
  "measurements_loop_js sz estimateSize keyExtractor paddingStart measuredCache i ms =
     (if int i < sz then
        (let measuredSize = measuredCache (prop_name (keyExtractor i));
             start_v = (case arr_get ms (int i - 1) of Some p \<Rightarrow> end_m p | None \<Rightarrow> paddingStart);
             size_v = (case measuredSize of Some v \<Rightarrow> v | None \<Rightarrow> estimateSize i);
             end_v = start_v + size_v
         in measurements_loop_js sz estimateSize keyExtractor paddingStart measuredCache (Suc i)
              (arr_set ms i \<lparr>index = i, start = start_v, size_m = size_v, end_m = end_v\<rparr>))
      else ms)"
  by pat_completeness auto
termination
  by (relation "measure (\<lambda>(sz, est, kx, ps, c, i, ms). nat (sz - int i))") auto

declare measurements_loop_js.simps [simp del]

definition measurements_js ::
  "int \<Rightarrow> (nat \<Rightarrow> real) \<Rightarrow> (nat \<Rightarrow> key) \<Rightarrow> real \<Rightarrow> measured_cache \<Rightarrow> span option list" where
  "measurements_js sz estimateSize keyExtractor paddingStart measuredCache =
     measurements_loop_js sz estimateSize keyExtractor paddingStart measuredCache 0 []"

subsection \<open>\<open>index.ts\<close>: spans below the least pending index are reused\<close>

function measurements_loop ::
  "int \<Rightarrow> (nat \<Rightarrow> real) \<Rightarrow> (nat \<Rightarrow> key) \<Rightarrow> real \<Rightarrow> measured_cache \<Rightarrow>
   nat \<Rightarrow> measurement option list \<Rightarrow> measurement option list" where
  "measurements_loop sz estimateSize keyExtractor paddingStart measuredCache i ms =
     (if int i < sz then
        (let key_v = keyExtractor i;
             measuredSize = measuredCache (prop_name key_v);
             start_v = (case arr_get ms (int i - 1) of Some p \<Rightarrow> end_m p | None \<Rightarrow> paddingStart);
             size_v = (case measuredSize of Some v \<Rightarrow> v | None \<Rightarrow> estimateSize i);
             end_v = start_v + size_v
         in measurements_loop sz estimateSize keyExtractor paddingStart measuredCache (Suc i)
              (arr_set ms i
                 \<lparr>index = i, start = start_v, size_m = size_v, end_m = end_v, key = key_v\<rparr>))
      else ms)"
  by pat_completeness auto
termination
  by (relation "measure (\<lambda>(sz, est, kx, ps, c, i, ms). nat (sz - int i))") auto

declare measurements_loop.simps [simp del]

text \<open>
  \<open>Math.min(...pending)\<close> when the list of pending indices is not empty, else 0.
\<close>

definition pending_min :: "nat list \<Rightarrow> nat" where
  "pending_min pending = (if length pending > 0 then fold min (tl pending) (hd pending) else 0)"

text \<open>
  The body of the \<open>useMemo\<close> callback. It reads the previous spans
  (\<open>latestRef.current.measurements\<close>) and the pending indices; the caller
  empties the pending list.
\<close>

definition measurements_ts ::
  "measurement option list \<Rightarrow> nat list \<Rightarrow>
   int \<Rightarrow> (nat \<Rightarrow> real) \<Rightarrow> (nat \<Rightarrow> key) \<Rightarrow> real \<Rightarrow> measured_cache \<Rightarrow> measurement option list" where
  "measurements_ts prev pending sz estimateSize keyExtractor paddingStart measuredCache =
     (let min_v = pending_min pending
      in measurements_loop sz estimateSize keyExtractor paddingStart measuredCache min_v
           (slice0 prev min_v))"

text \<open>\<open>(measurements[size - 1]?.end || 0) + paddingEnd\<close>; \<open>||\<close> replaces a zero by 0.\<close>

definition totalSize :: "('a span_scheme) option list \<Rightarrow> int \<Rightarrow> real \<Rightarrow> real" where
  "totalSize ms sz paddingEnd =
     (case arr_get ms (sz - 1) of
        None \<Rightarrow> 0
      | Some m \<Rightarrow> (if end_m m \<noteq> 0 then end_m m else 0)) + paddingEnd"

section \<open>Range locator\<close>

text \<open>
  \<open>x | 0\<close> is ToInt32: the number is truncated towards zero and wrapped into
  the signed 32-bit range. \<open>middle_of low high\<close> is \<open>((low + high) / 2) | 0\<close>.
\<close>

definition toInt32 :: "int \<Rightarrow> int" where
  "toInt32 n = (n + 2 ^ 31) mod 2 ^ 32 - 2 ^ 31"

definition middle_of :: "int \<Rightarrow> int \<Rightarrow> int" where
  "middle_of low high =
     toInt32 (let s = low + high in if 0 \<le> s then s div 2 else - ((- s) div 2))"

text \<open>
  The \<open>while\<close> loop of the binary search has no bound of its own, so the search is
  a partial function: \<open>None\<close> is a search that does not return, \<open>Some (Inl e)\<close>
  one in which \<open>getCurrentValue\<close> throws.
\<close>

partial_function (option) findNearestBinarySearch ::
  "int \<Rightarrow> int \<Rightarrow> (int \<Rightarrow> error + real) \<Rightarrow> real \<Rightarrow> (error + int) option" where
  "findNearestBinarySearch low high getCurrentValue value_v =
     (if low \<le> high then
        (let middle = middle_of low high
         in case getCurrentValue middle of
              Inl e \<Rightarrow> Some (Inl e)
            | Inr currentValue \<Rightarrow>
                if currentValue < value_v then
                  findNearestBinarySearch (middle + 1) high getCurrentValue value_v
                else if currentValue > value_v then
                  findNearestBinarySearch low (middle - 1) getCurrentValue value_v
                else Some (Inr middle))
      else if low > 0 then Some (Inr (low - 1))
      else Some (Inr 0))"

text \<open>\<open>measurements[index]!.start\<close>: reading a property of \<open>undefined\<close> throws.\<close>

definition getOffset :: "('a span_scheme) option list \<Rightarrow> int \<Rightarrow> error + real" where
  "getOffset ms i = (case arr_get ms i of None \<Rightarrow> Inl TypeError | Some m \<Rightarrow> Inr (start m))"

text \<open>
  \<open>while (end < size && measurements[end]!.end < scrollOffset + outerSize) end++\<close>
\<close>

function range_end_loop ::
  "('a span_scheme) option list \<Rightarrow> int \<Rightarrow> real \<Rightarrow> real \<Rightarrow> int \<Rightarrow> error + int" where
  "range_end_loop ms size_v scrollOffset_v outerSize_v end_v =
     (if end_v < size_v then
        (case arr_get ms end_v of
           None \<Rightarrow> Inl TypeError
         | Some m \<Rightarrow>
             if end_m m < scrollOffset_v + outerSize_v
             then range_end_loop ms size_v scrollOffset_v outerSize_v (end_v + 1)
             else Inr end_v)
      else Inr end_v)"
  by pat_completeness auto
termination
  by (relation "measure (\<lambda>(ms, size_v, so, os, end_v). nat (size_v - end_v))") auto

declare range_end_loop.simps [simp del]

text \<open>The record \<open>latestRef.current\<close> of \<open>index.ts\<close>.\<close>

record latest =
  outerSize :: real
  scrollOffset :: real
  measurements :: "measurement option list"
  latest_totalSize :: real

definition calculateRange :: "latest \<Rightarrow> (error + int \<times> int) option" where
  "calculateRange l =
     (let size_v = int (length (measurements l)) - 1
      in case findNearestBinarySearch 0 size_v (getOffset (measurements l)) (scrollOffset l) of
           None \<Rightarrow> None
         | Some (Inl e) \<Rightarrow> Some (Inl e)
         | Some (Inr start_v) \<Rightarrow>
             (case range_end_loop (measurements l) size_v (scrollOffset l) (outerSize l) start_v of
                Inl e \<Rightarrow> Some (Inl e)
              | Inr end_v \<Rightarrow> Some (Inr (start_v, end_v))))"

section \<open>Scroll source adapter: the window variant\<close>

datatype scroll_reason = ToIndex | ToOffset | SizeChanged



text \<open>
  The state of \<open>useWindowScroll\<close>: the \<open>scrollOffset\<close> it reports and
  \<open>parentOffsetRef.current\<close>.
\<close>

record window_scroll =
  reported_scrollOffset :: real
  parentOffsetRef :: real



definition window_initial :: window_scroll where
  "window_initial = \<lparr>reported_scrollOffset = 0, parentOffsetRef = 0\<rparr>"




section \<open>Virtualizer controller (\<open>index.ts\<close>)\<close>

datatype scroll_alignment = Start | Center | End | Auto

text \<open>A call of the adapter's \<open>scrollToFn(offset, reason)\<close>.\<close>

type_synonym scroll_call = "real \<times> scroll_reason"

text \<open>
  The option \<open>scrollToFn(offset, defaultScrollToFn)\<close>: it receives the offset and the
  default setter and answers with the calls it makes.
\<close>

type_synonym custom_scrollToFn = "real \<Rightarrow> (real \<Rightarrow> scroll_call list) \<Rightarrow> scroll_call list"

definition scrollTo :: "custom_scrollToFn option \<Rightarrow> real \<Rightarrow> scroll_reason \<Rightarrow> scroll_call list" where
  "scrollTo scrollToFn offset reason =
     (let toFn = (\<lambda>offset. [(offset, reason)])
      in case scrollToFn of None \<Rightarrow> toFn offset | Some f \<Rightarrow> f offset toFn)"

text \<open>The alignment after the \<open>if (align === 'auto')\<close> block of \<open>scrollToOffset\<close>.\<close>

definition scrollToOffset_align :: "latest \<Rightarrow> real \<Rightarrow> scroll_alignment \<Rightarrow> scroll_alignment" where
  "scrollToOffset_align l toOffset align =
     (if align = Auto then
        (if toOffset \<le> scrollOffset l then Start
         else if toOffset \<ge> scrollOffset l + outerSize l then End
         else Start)
      else align)"

definition scrollToOffset ::
  "latest \<Rightarrow> custom_scrollToFn option \<Rightarrow> real \<Rightarrow> scroll_alignment \<Rightarrow> scroll_reason \<Rightarrow> scroll_call list" where
  "scrollToOffset l scrollToFn toOffset align reason =
     (let align' = scrollToOffset_align l toOffset align
      in if align' = Start then scrollTo scrollToFn toOffset reason
         else if align' = End then scrollTo scrollToFn (toOffset - outerSize l) reason
         else if align' = Center then scrollTo scrollToFn (toOffset - outerSize l / 2) reason
         else [])"

text \<open>\<open>Math.max(0, Math.min(index, size - 1))\<close>\<close>

definition clamp_index :: "int \<Rightarrow> int \<Rightarrow> int" where
  "clamp_index sz i = max 0 (min i (sz - 1))"

definition tryScrollToIndex ::
  "latest \<Rightarrow> int \<Rightarrow> custom_scrollToFn option \<Rightarrow> int \<Rightarrow> scroll_alignment \<Rightarrow> scroll_call list" where
  "tryScrollToIndex l sz scrollToFn i align =
     (case arr_get (measurements l) (clamp_index sz i) of
        None \<Rightarrow> []
      | Some measurement \<Rightarrow>
          (case (if align = Auto then
                   (if end_m measurement \<ge> scrollOffset l + outerSize l then Some End
                    else if start measurement \<le> scrollOffset l then Some Start
                    else None)
                 else Some align) of
             None \<Rightarrow> []
           | Some align' \<Rightarrow>
               (let toOffset =
                      (if align' = Center then start measurement + size_m measurement / 2
                       else if align' = End then end_m measurement
                       else start measurement)
                in scrollToOffset l scrollToFn toOffset align' ToIndex)))"

text \<open>
  \<open>scrollToIndex\<close> tries at once and again in the next animation frame; the second
  try reads \<open>latestRef.current\<close> as it is then.
\<close>

definition scrollToIndex ::
  "latest \<Rightarrow> int \<Rightarrow> custom_scrollToFn option \<Rightarrow> int \<Rightarrow> scroll_alignment \<Rightarrow>
   scroll_call list \<times> (latest \<Rightarrow> scroll_call list)" where
  "scrollToIndex l sz scrollToFn i align =
     (tryScrollToIndex l sz scrollToFn i align,
      \<lambda>l'. tryScrollToIndex l' sz scrollToFn i align)"

subsection \<open>The state of one \<open>useVirtual\<close> instance\<close>

record hook_state =
  latestRef :: latest
  scrollOffsetWithAdjustmentsRef :: real
  measuredCache :: measured_cache
  pendingMeasuredCacheIndexesRef :: "nat list"
  scroll_calls :: "scroll_call list"

text \<open>
  \<open>scroll_calls\<close> lists the calls of the adapter's \<open>scrollToFn\<close> made by the
  measurement hook, oldest first. The first render starts from \<open>hook_initial\<close>,
  with the scroll offset the adapter reports.
\<close>

definition hook_initial :: "real \<Rightarrow> hook_state" where
  "hook_initial scrollOffset_v =
     \<lparr>latestRef = \<lparr>outerSize = 0, scrollOffset = 0, measurements = [], latest_totalSize = 0\<rparr>,
      scrollOffsetWithAdjustmentsRef = scrollOffset_v,
      measuredCache = Map.empty,
      pendingMeasuredCacheIndexesRef = [],
      scroll_calls = []\<rparr>"

text \<open>The part of a render that takes over what the scroll adapter reports.\<close>

definition useVirtual_scroll :: "real \<Rightarrow> real \<Rightarrow> hook_state \<Rightarrow> hook_state" where
  "useVirtual_scroll outerSize_v scrollOffset_v st =
     (let st1 = (if scrollOffset (latestRef st) \<noteq> scrollOffset_v
                 then st\<lparr>scrollOffsetWithAdjustmentsRef := scrollOffset_v\<rparr> else st)
      in st1\<lparr>latestRef := (latestRef st1)\<lparr>outerSize := outerSize_v, scrollOffset := scrollOffset_v\<rparr>\<rparr>)"

text \<open>
  The part of a render that recomputes the spans: the \<open>useMemo\<close> callback, run
  because one of its dependencies changed, and the two assignments to \<open>latestRef\<close>.
\<close>

definition useVirtual_measurements ::
  "int \<Rightarrow> (nat \<Rightarrow> real) \<Rightarrow> (nat \<Rightarrow> key) \<Rightarrow> real \<Rightarrow> real \<Rightarrow> hook_state \<Rightarrow> hook_state" where
  "useVirtual_measurements sz estimateSize keyExtractor paddingStart paddingEnd st =
     (let ms = measurements_ts (measurements (latestRef st)) (pendingMeasuredCacheIndexesRef st)
                 sz estimateSize keyExtractor paddingStart (measuredCache st)
      in st\<lparr>pendingMeasuredCacheIndexesRef := [],
            latestRef := (latestRef st)\<lparr>measurements := ms,
                                         latest_totalSize := totalSize ms sz paddingEnd\<rparr>\<rparr>)"

text \<open>\<open>measure()\<close> empties the cache.\<close>

definition measure_reset :: "hook_state \<Rightarrow> hook_state" where
  "measure_reset st = st\<lparr>measuredCache := Map.empty\<rparr>"

subsection \<open>The measurement hook of a virtual item\<close>

record html_element =
  offsetWidth :: real
  offsetHeight :: real
  rect_width :: real
  rect_height :: real

definition defaultMeasureSize :: "html_element \<Rightarrow> bool \<Rightarrow> real" where
  "defaultMeasureSize el horizontal = (if horizontal then offsetWidth el else offsetHeight el)"

text \<open>
  \<open>item\<close> is \<open>{ ...measurements[i], measureRef }\<close>: when \<open>measurements[i]\<close> is
  \<open>undefined\<close> the item has no \<open>size\<close>, \<open>start\<close> or \<open>key\<close>, so that
  \<open>measuredSize !== item.size\<close> holds, \<open>item.start < scrollOffset\<close> does not, and the
  property written is \<open>"undefined"\<close>.
\<close>

definition measureRef ::
  "(html_element \<Rightarrow> bool \<Rightarrow> real) \<Rightarrow> bool \<Rightarrow> nat \<Rightarrow> measurement option \<Rightarrow>
   html_element option \<Rightarrow> hook_state \<Rightarrow> hook_state" where
  "measureRef measureSize horizontal i item el st =
     (case el of
        None \<Rightarrow> st
      | Some e \<Rightarrow>
          (let measuredSize = measureSize e horizontal
           in if (case item of Some m \<Rightarrow> measuredSize \<noteq> size_m m | None \<Rightarrow> True) then
                (let scrollOffset_v = scrollOffset (latestRef st);
                     st1 =
                       (case item of
                          Some m \<Rightarrow>
                            if start m < scrollOffset_v then
                              (let delta = measuredSize - size_m m;
                                   adjusted = scrollOffsetWithAdjustmentsRef st + delta
                               in st\<lparr>scrollOffsetWithAdjustmentsRef := adjusted,
                                     scroll_calls := scroll_calls st @ [(adjusted, SizeChanged)]\<rparr>)
                            else st
                        | None \<Rightarrow> st)
                 in st1\<lparr>pendingMeasuredCacheIndexesRef := pendingMeasuredCacheIndexesRef st1 @ [i],
                        measuredCache :=
                          (measuredCache st1)
                            ((case item of Some m \<Rightarrow> prop_name (key m) | None \<Rightarrow> ''undefined'')
                               \<mapsto> measuredSize)\<rparr>)
              else st))"

section \<open>Virtualizer controller (\<open>index.js\<close>)\<close>

text \<open>
  In \<open>index.js\<close> \<open>latestRef.current.scrollOffset\<close> is \<open>undefined\<close> until the
  first scroll notification: it is a \<^typ>\<open>real option\<close>. A comparison with
  \<open>undefined\<close> is false.
\<close>

type_synonym custom_scrollToFn_js = "real \<Rightarrow> (real \<Rightarrow> real list) \<Rightarrow> real list"

definition scrollToFn_js :: "custom_scrollToFn_js option \<Rightarrow> real \<Rightarrow> real list" where
  "scrollToFn_js scrollToFn offset =
     (let defaultScrollToFn = (\<lambda>offset. [offset])
      in case scrollToFn of None \<Rightarrow> defaultScrollToFn offset | Some f \<Rightarrow> f offset defaultScrollToFn)"

definition scrollToOffset_align_js ::
  "real option \<Rightarrow> real \<Rightarrow> real \<Rightarrow> scroll_alignment \<Rightarrow> scroll_alignment" where
  "scrollToOffset_align_js scrollOffset_v outerSize_v toOffset align =
     (if align = Auto then
        (if (case scrollOffset_v of Some so \<Rightarrow> toOffset \<le> so | None \<Rightarrow> False) then Start
         else if (case scrollOffset_v of Some so \<Rightarrow> toOffset \<ge> so + outerSize_v | None \<Rightarrow> False)
         then End
         else Start)
      else align)"

definition scrollToOffset_js ::
  "real option \<Rightarrow> real \<Rightarrow> custom_scrollToFn_js option \<Rightarrow> real \<Rightarrow> scroll_alignment \<Rightarrow> real list" where
  "scrollToOffset_js scrollOffset_v outerSize_v scrollToFn toOffset align =
     (let align' = scrollToOffset_align_js scrollOffset_v outerSize_v toOffset align
      in if align' = Start then scrollToFn_js scrollToFn toOffset
         else if align' = End then scrollToFn_js scrollToFn (toOffset - outerSize_v)
         else if align' = Center then scrollToFn_js scrollToFn (toOffset - outerSize_v / 2)
         else [])"

definition tryScrollToIndex_js ::
  "span option list \<Rightarrow> real option \<Rightarrow> real \<Rightarrow> int \<Rightarrow> custom_scrollToFn_js option \<Rightarrow>
   int \<Rightarrow> scroll_alignment \<Rightarrow> real list" where
  "tryScrollToIndex_js ms scrollOffset_v outerSize_v sz scrollToFn i align =
     (case arr_get ms (clamp_index sz i) of
        None \<Rightarrow> []
      | Some measurement \<Rightarrow>
          (case (if align = Auto then
                   (if (case scrollOffset_v of
                          Some so \<Rightarrow> end_m measurement \<ge> so + outerSize_v | None \<Rightarrow> False)
                    then Some End
                    else if (case scrollOffset_v of
                               Some so \<Rightarrow> start measurement \<le> so | None \<Rightarrow> False)
                    then Some Start
                    else None)
                 else Some align) of
             None \<Rightarrow> []
           | Some align' \<Rightarrow>
               (let toOffset =
                      (if align' = Center then start measurement + size_m measurement / 2
                       else if align' = End then end_m measurement
                       else start measurement)
                in scrollToOffset_js scrollOffset_v outerSize_v scrollToFn toOffset align')))"

definition scrollToIndex_js ::
  "span option list \<Rightarrow> real option \<Rightarrow> real \<Rightarrow> int \<Rightarrow> custom_scrollToFn_js option \<Rightarrow>
   int \<Rightarrow> scroll_alignment \<Rightarrow> real list \<times> (span option list \<Rightarrow> real option \<Rightarrow> real \<Rightarrow> real list)" where
  "scrollToIndex_js ms scrollOffset_v outerSize_v sz scrollToFn i align =
     (tryScrollToIndex_js ms scrollOffset_v outerSize_v sz scrollToFn i align,
      \<lambda>ms' scrollOffset' outerSize'.
         tryScrollToIndex_js ms' scrollOffset' outerSize' sz scrollToFn i align)"

text \<open>
  What the measurement hook of \<open>index.js\<close> can change: the cache, and the scroll
  position through \<open>defaultScrollToFn\<close> (the offsets it was called with, oldest first).
\<close>

record hook_state_js =
  measuredCache_js :: measured_cache
  scroll_calls_js :: "real list"

definition measureRef_js ::
  "bool \<Rightarrow> (nat \<Rightarrow> key) \<Rightarrow> real option \<Rightarrow> nat \<Rightarrow> span \<Rightarrow>
   html_element option \<Rightarrow> hook_state_js \<Rightarrow> hook_state_js" where
  "measureRef_js horizontal keyExtractor scrollOffset_v i item el st =
     (case el of
        None \<Rightarrow> st
      | Some e \<Rightarrow>
          (let measuredSize = (if horizontal then rect_width e else rect_height e)
           in if measuredSize \<noteq> size_m item then
                (let st1 =
                       (case scrollOffset_v of
                          Some so \<Rightarrow>
                            if start item < so then
                              st\<lparr>scroll_calls_js :=
                                    scroll_calls_js st @ [so + (measuredSize - size_m item)]\<rparr>
                            else st
                        | None \<Rightarrow> st)
                 in st1\<lparr>measuredCache_js :=
                          (measuredCache_js st1)(prop_name (keyExtractor i) \<mapsto> measuredSize)\<rparr>)
              else st))"

section \<open>Defaults of the options\<close>

definition defaultEstimateSize :: "nat \<Rightarrow> real" where
  "defaultEstimateSize i = 50"

definition defaultKeyExtractor :: "nat \<Rightarrow> key" where
  "defaultKeyExtractor i = KNum (int i)"

section \<open>Properties of span sequences\<close>

text \<open>
  The invariants of a span sequence: no holes, the first span starts at \<open>s\<close>, every
  span ends at its start plus its size, and every later span starts where the span
  before it ends.
\<close>

fun span_chain :: "real \<Rightarrow> ('a span_scheme) option list \<Rightarrow> bool" where
  "span_chain s [] = True"
| "span_chain s (None # ms) = False"
| "span_chain s (Some m # ms) =
     (start m = s \<and> end_m m = start m + size_m m \<and> span_chain (end_m m) ms)"

fun sizes_nonneg :: "('a span_scheme) option list \<Rightarrow> bool" where
  "sizes_nonneg [] = True"
| "sizes_nonneg (None # ms) = sizes_nonneg ms"
| "sizes_nonneg (Some m # ms) = (0 \<le> size_m m \<and> sizes_nonneg ms)"

definition starts :: "('a span_scheme) option list \<Rightarrow> real list" where
  "starts ms = map (\<lambda>m. start (the m)) ms"

definition ends :: "('a span_scheme) option list \<Rightarrow> real list" where
  "ends ms = map (\<lambda>m. end_m (the m)) ms"

text \<open>The size that \<open>measurements\<close> gives to index \<open>i\<close>: the cached size, else the estimate.\<close>

definition size_at :: "(nat \<Rightarrow> real) \<Rightarrow> (nat \<Rightarrow> key) \<Rightarrow> measured_cache \<Rightarrow> nat \<Rightarrow> real" where
  "size_at estimateSize keyExtractor cache i =
     (case cache (prop_name (keyExtractor i)) of Some v \<Rightarrow> v | None \<Rightarrow> estimateSize i)"

section \<open>Example inputs\<close>

text \<open>Three items of size 0: all spans start at 0.\<close>

definition zero_size :: "nat \<Rightarrow> real" where
  "zero_size i = 0"

definition zero_spans :: "measurement option list" where
  "zero_spans = measurements_ts [] [] 3 zero_size defaultKeyExtractor 0 Map.empty"

text \<open>Four items of the default size 50 in a viewport of 120 scrolled to 60.\<close>

definition four_items :: latest where
  "four_items =
     \<lparr>outerSize = 120, scrollOffset = 60,
      measurements = measurements_ts [] [] 4 defaultEstimateSize defaultKeyExtractor 0 Map.empty,
      latest_totalSize = 200\<rparr>"

definition tall_element :: html_element where
  "tall_element = \<lparr>offsetWidth = 10, offsetHeight = 70, rect_width = 10, rect_height = 70\<rparr>"

definition short_element :: html_element where
  "short_element = \<lparr>offsetWidth = 10, offsetHeight = 30, rect_width = 10, rect_height = 30\<rparr>"

text \<open>
  The end of the last span of an array, or \<open>ps\<close> for an empty array: the start that
  the loop of \<open>measurements\<close> gives to the next span.
\<close>

definition last_end :: "real \<Rightarrow> ('a span_scheme) option list \<Rightarrow> real" where
  "last_end ps ms = (case arr_get ms (int (length ms) - 1) of Some p \<Rightarrow> end_m p | None \<Rightarrow> ps)"

section \<open>Two histories of one \<open>useVirtual\<close> instance\<close>

text \<open>The first render of two items with the default options and no padding.\<close>

definition first_render :: hook_state where
  "first_render =
     useVirtual_measurements 2 defaultEstimateSize defaultKeyExtractor 0 0 (hook_initial 0)"

text \<open>
  History A: item 1 reports a height of 70, and the render that follows comes with
  \<open>paddingStart = 10\<close>.
\<close>

definition item1_measured :: hook_state where
  "item1_measured =
     measureRef defaultMeasureSize False 1 (arr_get (measurements (latestRef first_render)) 1)
       (Some tall_element) first_render"

definition padding_changed :: hook_state where
  "padding_changed =
     useVirtual_measurements 2 defaultEstimateSize defaultKeyExtractor 10 0 item1_measured"

text \<open>
  History B: item 0 reports a height of 70 and the list renders again; then item 1
  reports a height of 30, \<open>measure()\<close> empties the cache, and the list renders.
\<close>

definition item0_measured :: hook_state where
  "item0_measured =
     useVirtual_measurements 2 defaultEstimateSize defaultKeyExtractor 0 0
       (measureRef defaultMeasureSize False 0 (arr_get (measurements (latestRef first_render)) 0)
          (Some tall_element) first_render)"

definition cache_reset :: hook_state where
  "cache_reset =
     useVirtual_measurements 2 defaultEstimateSize defaultKeyExtractor 0 0
       (measure_reset
          (measureRef defaultMeasureSize False 1
             (arr_get (measurements (latestRef item0_measured)) 1)
             (Some short_element) item0_measured))"

text \<open>
  History C: four items in a viewport of 50 scrolled to 120; item 3 reports a height of
  70, and the render that follows has two items.
\<close>

definition four_rendered :: hook_state where
  "four_rendered =
     useVirtual_measurements 4 defaultEstimateSize defaultKeyExtractor 0 0
       (useVirtual_scroll 50 120 (hook_initial 120))"

definition item3_measured :: hook_state where
  "item3_measured =
     measureRef defaultMeasureSize False 3 (arr_get (measurements (latestRef four_rendered)) 3)
       (Some tall_element) four_rendered"

definition count_reduced :: hook_state where
  "count_reduced =
     useVirtual_measurements 2 defaultEstimateSize defaultKeyExtractor 0 0
       (useVirtual_scroll 50 120 item3_measured)"

text \<open>The same render of two items when every span is computed anew.\<close>

definition two_recomputed :: latest where
  "two_recomputed =
     \<lparr>outerSize = 50, scrollOffset = 120,
      measurements =
        measurements_ts [] [] 2 defaultEstimateSize defaultKeyExtractor 0
          (measuredCache item3_measured),
      latest_totalSize = 100\<rparr>"

text \<open>\<open>2^31 + 1\<close> items of size 0.\<close>

definition huge_spans :: "measurement option list" where
  "huge_spans = measurements_ts [] [] 2147483649 zero_size defaultKeyExtractor 0 Map.empty"

section \<open>Scroll alignment\<close>

text \<open>
  C6. With \<open>align: 'auto'\<close>, \<open>scrollToOffset\<close> resolves the alignment to
  \<open>start\<close> when \<open>toOffset \<le> scrollOffset\<close>, otherwise to \<open>end\<close> when
  \<open>toOffset \<ge> scrollOffset + outerSize\<close>, and to \<open>start\<close> in every remaining
  case; the offset handed to the scroll setter is \<open>toOffset\<close> for \<open>start\<close>,
  \<open>toOffset - outerSize\<close> for \<open>end\<close> and \<open>toOffset - outerSize / 2\<close> for
  \<open>center\<close>. Both tests of \<open>auto\<close> can hold only when \<open>outerSize \<le> 0\<close>; for
  \<open>outerSize = 0\<close> the two alignments give the same offset, which is the fourth
  conjunct. The last nine conjuncts are the same facts for \<open>index.js\<close>, where an
  \<open>undefined\<close> scroll offset resolves to \<open>start\<close>.
\<close>

theorem scrollToOffset_auto_alignment:
  "(toOffset \<le> scrollOffset l \<longrightarrow> scrollToOffset_align l toOffset Auto = Start) \<and>
   (\<not> toOffset \<le> scrollOffset l \<and> toOffset \<ge> scrollOffset l + outerSize l \<longrightarrow>
      scrollToOffset_align l toOffset Auto = End) \<and>
   (\<not> toOffset \<le> scrollOffset l \<and> \<not> toOffset \<ge> scrollOffset l + outerSize l \<longrightarrow>
      scrollToOffset_align l toOffset Auto = Start) \<and>
   (0 \<le> outerSize l \<and> toOffset \<ge> scrollOffset l + outerSize l \<longrightarrow>
      scrollToOffset l fn toOffset Auto reason = scrollTo fn (toOffset - outerSize l) reason) \<and>
   scrollToOffset l fn toOffset Auto reason =
     scrollToOffset l fn toOffset (scrollToOffset_align l toOffset Auto) reason \<and>
   scrollToOffset l fn toOffset Start reason = scrollTo fn toOffset reason \<and>
   scrollToOffset l fn toOffset End reason = scrollTo fn (toOffset - outerSize l) reason \<and>
   scrollToOffset l fn toOffset Center reason = scrollTo fn (toOffset - outerSize l / 2) reason \<and>
   scrollTo None toOffset reason = [(toOffset, reason)] \<and>
   (toOffset \<le> so \<longrightarrow> scrollToOffset_align_js (Some so) os toOffset Auto = Start) \<and>
   (\<not> toOffset \<le> so \<and> toOffset \<ge> so + os \<longrightarrow>
      scrollToOffset_align_js (Some so) os toOffset Auto = End) \<and>
   (\<not> toOffset \<le> so \<and> \<not> toOffset \<ge> so + os \<longrightarrow>
      scrollToOffset_align_js (Some so) os toOffset Auto = Start) \<and>
   scrollToOffset_align_js None os toOffset Auto = Start \<and>
   scrollToOffset_js so' os fn_js toOffset Auto =
     scrollToOffset_js so' os fn_js toOffset (scrollToOffset_align_js so' os toOffset Auto) \<and>
   scrollToOffset_js so' os fn_js toOffset Start = scrollToFn_js fn_js toOffset \<and>
   scrollToOffset_js so' os fn_js toOffset End = scrollToFn_js fn_js (toOffset - os) \<and>
   scrollToOffset_js so' os fn_js toOffset Center = scrollToFn_js fn_js (toOffset - os / 2) \<and>
   scrollToFn_js None toOffset = [toOffset]"
proof -
  have overlap: "toOffset - outerSize l = toOffset"
    if "toOffset \<le> scrollOffset l" "0 \<le> outerSize l" "toOffset \<ge> scrollOffset l + outerSize l"
    using that by arith
  have both: "scrollToOffset l fn toOffset Auto reason = scrollTo fn (toOffset - outerSize l) reason"
    if "0 \<le> outerSize l" "toOffset \<ge> scrollOffset l + outerSize l"
  proof (cases "toOffset \<le> scrollOffset l")
    case True
    with that have "toOffset - outerSize l = toOffset"
      by (intro overlap)
    with True show ?thesis
      by (simp add: scrollToOffset_def scrollToOffset_align_def)
  next
    case False
    with that show ?thesis
      by (simp add: scrollToOffset_def scrollToOffset_align_def)
  qed
  show ?thesis
    using both
    by (simp add: scrollToOffset_def scrollToOffset_align_def scrollTo_def
        scrollToOffset_js_def scrollToOffset_align_js_def scrollToFn_js_def)
qed

theorem scrollToOffset_auto_alignment_witness:
  "(50::real) \<le> scrollOffset \<lparr>outerSize = 200, scrollOffset = 100, measurements = [], latest_totalSize = 0\<rparr> \<and>
   scrollToOffset_align \<lparr>outerSize = 200, scrollOffset = 100, measurements = [], latest_totalSize = 0\<rparr> 50 Auto = Start \<and>
   scrollToOffset_align \<lparr>outerSize = 200, scrollOffset = 100, measurements = [], latest_totalSize = 0\<rparr> 400 Auto = End \<and>
   scrollToOffset_align \<lparr>outerSize = 200, scrollOffset = 100, measurements = [], latest_totalSize = 0\<rparr> 150 Auto = Start \<and>
   scrollToOffset \<lparr>outerSize = 200, scrollOffset = 100, measurements = [], latest_totalSize = 0\<rparr>
     None 400 Auto ToOffset = [(200, ToOffset)] \<and>
   scrollToOffset_align_js (Some 100) 200 50 Auto = Start \<and>
   scrollToOffset_align_js (Some 100) 200 400 Auto = End \<and>
   scrollToOffset_align_js (Some 100) 200 150 Auto = Start"
  using scrollToOffset_auto_alignment [where toOffset = 50 and so = 100 and os = 200 and
      fn = None and reason = ToOffset and so' = "Some 100" and fn_js = None and
      l = "\<lparr>outerSize = 200, scrollOffset = 100, measurements = [], latest_totalSize = 0\<rparr>"]
    scrollToOffset_auto_alignment [where toOffset = 400 and so = 100 and os = 200 and
      fn = None and reason = ToOffset and so' = "Some 100" and fn_js = None and
      l = "\<lparr>outerSize = 200, scrollOffset = 100, measurements = [], latest_totalSize = 0\<rparr>"]
    scrollToOffset_auto_alignment [where toOffset = 150 and so = 100 and os = 200 and
      fn = None and reason = ToOffset and so' = "Some 100" and fn_js = None and
      l = "\<lparr>outerSize = 200, scrollOffset = 100, measurements = [], latest_totalSize = 0\<rparr>"]
  by (simp add: scrollTo_def)

section \<open>Scrolling to an index\<close>

lemma clamp_index_idem: "clamp_index sz (clamp_index sz i) = clamp_index sz i"
  by (simp add: clamp_index_def)

text \<open>
  C7. \<open>scrollToIndex\<close> takes any integer index and works on the index clamped by
  \<open>Math.max(0, Math.min(index, size - 1))\<close>, which lies in \<open>[0, size - 1]\<close> when there
  is an item; no branch rejects an index. When there is a span at the clamped index the
  request goes on with that span: \<open>start\<close> scrolls to its start, \<open>end\<close> to its end
  less the viewport, \<open>center\<close> to its middle less half the viewport, and \<open>auto\<close>
  picks \<open>end\<close>, \<open>start\<close> or nothing as the span lies against the window. When there is
  no span at the clamped index, the immediate try makes no scroll call, and so does the
  deferred try if there is none then either; the function has no other effect. The same
  holds for \<open>index.js\<close>.
\<close>

theorem scrollToIndex_clamps:
  "(1 \<le> sz \<longrightarrow> 0 \<le> clamp_index sz i \<and> clamp_index sz i \<le> sz - 1) \<and>
   (0 \<le> i \<and> i \<le> sz - 1 \<longrightarrow> clamp_index sz i = i) \<and>
   tryScrollToIndex l sz fn i align = tryScrollToIndex l sz fn (clamp_index sz i) align \<and>
   fst (scrollToIndex l sz fn i align) = tryScrollToIndex l sz fn i align \<and>
   snd (scrollToIndex l sz fn i align) l' = tryScrollToIndex l' sz fn i align \<and>
   (arr_get (measurements l) (clamp_index sz i) = None \<longrightarrow>
      tryScrollToIndex l sz fn i align = []) \<and>
   (arr_get (measurements l) (clamp_index sz i) = Some m \<longrightarrow>
      tryScrollToIndex l sz fn i Start = scrollTo fn (start m) ToIndex \<and>
      tryScrollToIndex l sz fn i End = scrollTo fn (end_m m - outerSize l) ToIndex \<and>
      tryScrollToIndex l sz fn i Center =
        scrollTo fn (start m + size_m m / 2 - outerSize l / 2) ToIndex \<and>
      tryScrollToIndex l sz None i Start = [(start m, ToIndex)] \<and>
      tryScrollToIndex l sz None i End = [(end_m m - outerSize l, ToIndex)] \<and>
      tryScrollToIndex l sz None i Center =
        [(start m + size_m m / 2 - outerSize l / 2, ToIndex)] \<and>
      (end_m m \<ge> scrollOffset l + outerSize l \<longrightarrow>
         tryScrollToIndex l sz fn i Auto = scrollTo fn (end_m m - outerSize l) ToIndex) \<and>
      (\<not> end_m m \<ge> scrollOffset l + outerSize l \<and> start m \<le> scrollOffset l \<longrightarrow>
         tryScrollToIndex l sz fn i Auto = scrollTo fn (start m) ToIndex) \<and>
      (\<not> end_m m \<ge> scrollOffset l + outerSize l \<and> \<not> start m \<le> scrollOffset l \<longrightarrow>
         tryScrollToIndex l sz fn i Auto = [])) \<and>
   tryScrollToIndex_js ms so os sz fn_js i align =
     tryScrollToIndex_js ms so os sz fn_js (clamp_index sz i) align \<and>
   fst (scrollToIndex_js ms so os sz fn_js i align) = tryScrollToIndex_js ms so os sz fn_js i align \<and>
   snd (scrollToIndex_js ms so os sz fn_js i align) ms' so' os' =
     tryScrollToIndex_js ms' so' os' sz fn_js i align \<and>
   (arr_get ms (clamp_index sz i) = None \<longrightarrow> tryScrollToIndex_js ms so os sz fn_js i align = []) \<and>
   (arr_get ms (clamp_index sz i) = Some m_js \<longrightarrow>
      tryScrollToIndex_js ms so os sz fn_js i Start = scrollToFn_js fn_js (start m_js) \<and>
      tryScrollToIndex_js ms so os sz fn_js i End = scrollToFn_js fn_js (end_m m_js - os) \<and>
      tryScrollToIndex_js ms so os sz fn_js i Center =
        scrollToFn_js fn_js (start m_js + size_m m_js / 2 - os / 2) \<and>
      tryScrollToIndex_js ms so os sz None i Start = [start m_js] \<and>
      tryScrollToIndex_js ms so os sz None i End = [end_m m_js - os] \<and>
      tryScrollToIndex_js ms so os sz None i Center = [start m_js + size_m m_js / 2 - os / 2] \<and>
      (end_m m_js \<ge> so_v + os \<longrightarrow>
         tryScrollToIndex_js ms (Some so_v) os sz fn_js i Auto =
           scrollToFn_js fn_js (end_m m_js - os)) \<and>
      (\<not> end_m m_js \<ge> so_v + os \<and> start m_js \<le> so_v \<longrightarrow>
         tryScrollToIndex_js ms (Some so_v) os sz fn_js i Auto =
           scrollToFn_js fn_js (start m_js)) \<and>
      (\<not> end_m m_js \<ge> so_v + os \<and> \<not> start m_js \<le> so_v \<longrightarrow>
         tryScrollToIndex_js ms (Some so_v) os sz fn_js i Auto = []) \<and>
      tryScrollToIndex_js ms None os sz fn_js i Auto = [])"
proof -
  have c1: "1 \<le> sz \<longrightarrow> 0 \<le> clamp_index sz i \<and> clamp_index sz i \<le> sz - 1"
    unfolding clamp_index_def by arith
  have c2: "0 \<le> i \<and> i \<le> sz - 1 \<longrightarrow> clamp_index sz i = i"
    by (simp add: clamp_index_def)
  have c3: "tryScrollToIndex l sz fn i align = tryScrollToIndex l sz fn (clamp_index sz i) align"
    by (simp add: tryScrollToIndex_def clamp_index_idem)
  have c4: "arr_get (measurements l) (clamp_index sz i) = None \<longrightarrow>
      tryScrollToIndex l sz fn i align = []"
    by (simp add: tryScrollToIndex_def)
  have c5: "tryScrollToIndex_js ms so os sz fn_js i align =
     tryScrollToIndex_js ms so os sz fn_js (clamp_index sz i) align"
    by (simp add: tryScrollToIndex_js_def clamp_index_idem)
  have c6: "arr_get ms (clamp_index sz i) = None \<longrightarrow>
      tryScrollToIndex_js ms so os sz fn_js i align = []"
    by (simp add: tryScrollToIndex_js_def)
  have c7: "fst (scrollToIndex l sz fn i align) = tryScrollToIndex l sz fn i align"
    "snd (scrollToIndex l sz fn i align) l' = tryScrollToIndex l' sz fn i align"
    "fst (scrollToIndex_js ms so os sz fn_js i align) = tryScrollToIndex_js ms so os sz fn_js i align"
    "snd (scrollToIndex_js ms so os sz fn_js i align) ms' so' os' =
       tryScrollToIndex_js ms' so' os' sz fn_js i align"
    by (simp_all add: scrollToIndex_def scrollToIndex_js_def)
  have c8: "arr_get (measurements l) (clamp_index sz i) = Some m \<longrightarrow>
      tryScrollToIndex l sz fn i Start = scrollTo fn (start m) ToIndex \<and>
      tryScrollToIndex l sz fn i End = scrollTo fn (end_m m - outerSize l) ToIndex \<and>
      tryScrollToIndex l sz fn i Center =
        scrollTo fn (start m + size_m m / 2 - outerSize l / 2) ToIndex \<and>
      tryScrollToIndex l sz None i Start = [(start m, ToIndex)] \<and>
      tryScrollToIndex l sz None i End = [(end_m m - outerSize l, ToIndex)] \<and>
      tryScrollToIndex l sz None i Center =
        [(start m + size_m m / 2 - outerSize l / 2, ToIndex)]"
    by (simp add: tryScrollToIndex_def scrollToOffset_def scrollToOffset_align_def scrollTo_def
        Let_def)
  have c9: "arr_get (measurements l) (clamp_index sz i) = Some m \<longrightarrow>
      (end_m m \<ge> scrollOffset l + outerSize l \<longrightarrow>
         tryScrollToIndex l sz fn i Auto = scrollTo fn (end_m m - outerSize l) ToIndex) \<and>
      (\<not> end_m m \<ge> scrollOffset l + outerSize l \<and> start m \<le> scrollOffset l \<longrightarrow>
         tryScrollToIndex l sz fn i Auto = scrollTo fn (start m) ToIndex) \<and>
      (\<not> end_m m \<ge> scrollOffset l + outerSize l \<and> \<not> start m \<le> scrollOffset l \<longrightarrow>
         tryScrollToIndex l sz fn i Auto = [])"
    by (simp add: tryScrollToIndex_def scrollToOffset_def scrollToOffset_align_def Let_def)
  have c10: "arr_get ms (clamp_index sz i) = Some m_js \<longrightarrow>
      tryScrollToIndex_js ms so os sz fn_js i Start = scrollToFn_js fn_js (start m_js) \<and>
      tryScrollToIndex_js ms so os sz fn_js i End = scrollToFn_js fn_js (end_m m_js - os) \<and>
      tryScrollToIndex_js ms so os sz fn_js i Center =
        scrollToFn_js fn_js (start m_js + size_m m_js / 2 - os / 2) \<and>
      tryScrollToIndex_js ms so os sz None i Start = [start m_js] \<and>
      tryScrollToIndex_js ms so os sz None i End = [end_m m_js - os] \<and>
      tryScrollToIndex_js ms so os sz None i Center = [start m_js + size_m m_js / 2 - os / 2]"
    by (simp add: tryScrollToIndex_js_def scrollToOffset_js_def scrollToOffset_align_js_def
        scrollToFn_js_def Let_def)
  have c11: "arr_get ms (clamp_index sz i) = Some m_js \<longrightarrow>
      (end_m m_js \<ge> so_v + os \<longrightarrow>
         tryScrollToIndex_js ms (Some so_v) os sz fn_js i Auto =
           scrollToFn_js fn_js (end_m m_js - os)) \<and>
      (\<not> end_m m_js \<ge> so_v + os \<and> start m_js \<le> so_v \<longrightarrow>
         tryScrollToIndex_js ms (Some so_v) os sz fn_js i Auto =
           scrollToFn_js fn_js (start m_js)) \<and>
      (\<not> end_m m_js \<ge> so_v + os \<and> \<not> start m_js \<le> so_v \<longrightarrow>
         tryScrollToIndex_js ms (Some so_v) os sz fn_js i Auto = []) \<and>
      tryScrollToIndex_js ms None os sz fn_js i Auto = []"
    by (simp add: tryScrollToIndex_js_def scrollToOffset_js_def scrollToOffset_align_js_def
        Let_def)
  from c8 c9 have c89: "arr_get (measurements l) (clamp_index sz i) = Some m \<longrightarrow>
      tryScrollToIndex l sz fn i Start = scrollTo fn (start m) ToIndex \<and>
      tryScrollToIndex l sz fn i End = scrollTo fn (end_m m - outerSize l) ToIndex \<and>
      tryScrollToIndex l sz fn i Center =
        scrollTo fn (start m + size_m m / 2 - outerSize l / 2) ToIndex \<and>
      tryScrollToIndex l sz None i Start = [(start m, ToIndex)] \<and>
      tryScrollToIndex l sz None i End = [(end_m m - outerSize l, ToIndex)] \<and>
      tryScrollToIndex l sz None i Center =
        [(start m + size_m m / 2 - outerSize l / 2, ToIndex)] \<and>
      (end_m m \<ge> scrollOffset l + outerSize l \<longrightarrow>
         tryScrollToIndex l sz fn i Auto = scrollTo fn (end_m m - outerSize l) ToIndex) \<and>
      (\<not> end_m m \<ge> scrollOffset l + outerSize l \<and> start m \<le> scrollOffset l \<longrightarrow>
         tryScrollToIndex l sz fn i Auto = scrollTo fn (start m) ToIndex) \<and>
      (\<not> end_m m \<ge> scrollOffset l + outerSize l \<and> \<not> start m \<le> scrollOffset l \<longrightarrow>
         tryScrollToIndex l sz fn i Auto = [])"
    by (intro impI conjI) simp_all
  from c10 c11 have c1011: "arr_get ms (clamp_index sz i) = Some m_js \<longrightarrow>
      tryScrollToIndex_js ms so os sz fn_js i Start = scrollToFn_js fn_js (start m_js) \<and>
      tryScrollToIndex_js ms so os sz fn_js i End = scrollToFn_js fn_js (end_m m_js - os) \<and>
      tryScrollToIndex_js ms so os sz fn_js i Center =
        scrollToFn_js fn_js (start m_js + size_m m_js / 2 - os / 2) \<and>
      tryScrollToIndex_js ms so os sz None i Start = [start m_js] \<and>
      tryScrollToIndex_js ms so os sz None i End = [end_m m_js - os] \<and>
      tryScrollToIndex_js ms so os sz None i Center = [start m_js + size_m m_js / 2 - os / 2] \<and>
      (end_m m_js \<ge> so_v + os \<longrightarrow>
         tryScrollToIndex_js ms (Some so_v) os sz fn_js i Auto =
           scrollToFn_js fn_js (end_m m_js - os)) \<and>
      (\<not> end_m m_js \<ge> so_v + os \<and> start m_js \<le> so_v \<longrightarrow>
         tryScrollToIndex_js ms (Some so_v) os sz fn_js i Auto =
           scrollToFn_js fn_js (start m_js)) \<and>
      (\<not> end_m m_js \<ge> so_v + os \<and> \<not> start m_js \<le> so_v \<longrightarrow>
         tryScrollToIndex_js ms (Some so_v) os sz fn_js i Auto = []) \<and>
      tryScrollToIndex_js ms None os sz fn_js i Auto = []"
    by (intro impI conjI) simp_all
  from c1 c2 c3 c7(1,2) c4 c89 c5 c7(3,4) c6 c1011 show ?thesis
    by (intro conjI) assumption+
qed

lemma four_items_measurements:
  "measurements four_items =
     [Some \<lparr>index = 0, start = 0, size_m = 50, end_m = 50, key = KNum 0\<rparr>,
      Some \<lparr>index = 1, start = 50, size_m = 50, end_m = 100, key = KNum 1\<rparr>,
      Some \<lparr>index = 2, start = 100, size_m = 50, end_m = 150, key = KNum 2\<rparr>,
      Some \<lparr>index = 3, start = 150, size_m = 50, end_m = 200, key = KNum 3\<rparr>]"
  by (simp add: four_items_def measurements_ts_def pending_min_def slice0_def
      measurements_loop.simps arr_set_def arr_get_def defaultEstimateSize_def
      defaultKeyExtractor_def Let_def)

lemma four_items_scroll: "scrollOffset four_items = 60" "outerSize four_items = 120"
  by (simp_all add: four_items_def)

theorem scrollToIndex_clamps_witness:
  "(1::int) \<le> 4 \<and> clamp_index 4 250 = 3 \<and> clamp_index 4 (- 3) = 0 \<and> clamp_index 4 2 = 2 \<and>
   arr_get (measurements four_items) (clamp_index 4 250) =
     Some \<lparr>index = 3, start = 150, size_m = 50, end_m = 200, key = KNum 3\<rparr> \<and>
   tryScrollToIndex four_items 4 None 250 Start = [(150, ToIndex)] \<and>
   tryScrollToIndex four_items 4 None 250 End = [(80, ToIndex)] \<and>
   tryScrollToIndex four_items 4 None 250 Auto = [(80, ToIndex)] \<and>
   tryScrollToIndex four_items 4 None (- 3) Auto = [(0, ToIndex)] \<and>
   tryScrollToIndex four_items 4 None 2 Auto = [] \<and>
   arr_get (measurements \<lparr>outerSize = 200, scrollOffset = 0, measurements = [], latest_totalSize = 0\<rparr>)
     (clamp_index 0 7) = None \<and>
   tryScrollToIndex \<lparr>outerSize = 200, scrollOffset = 0, measurements = [], latest_totalSize = 0\<rparr>
     0 None 7 Auto = [] \<and>
   tryScrollToIndex_js [] (Some 0) 200 0 None 7 Auto = [] \<and>
   tryScrollToIndex_js [Some \<lparr>index = 0, start = 0, size_m = 50, end_m = 50\<rparr>] (Some 0) 200 1 None 9
     Start = [0]"
proof -
  have sp: "arr_get (measurements four_items) (clamp_index 4 250) =
      Some \<lparr>index = 3, start = 150, size_m = 50, end_m = 200, key = KNum 3\<rparr>"
    "arr_get (measurements four_items) (clamp_index 4 (- 3)) =
      Some \<lparr>index = 0, start = 0, size_m = 50, end_m = 50, key = KNum 0\<rparr>"
    "arr_get (measurements four_items) (clamp_index 4 2) =
      Some \<lparr>index = 2, start = 100, size_m = 50, end_m = 150, key = KNum 2\<rparr>"
    by (simp_all add: four_items_measurements clamp_index_def arr_get_def)
  have js: "arr_get [Some \<lparr>index = 0, start = 0, size_m = 50, end_m = 50\<rparr>] (clamp_index 1 9) =
      Some \<lparr>index = 0, start = 0, size_m = 50, end_m = 50\<rparr>"
    by (simp add: clamp_index_def arr_get_def)
  have none: "arr_get (measurements \<lparr>outerSize = 200, scrollOffset = 0, measurements = [],
      latest_totalSize = 0\<rparr>) (clamp_index 0 7) = None"
    "arr_get ([] :: span option list) (clamp_index 0 7) = None"
    by (simp_all add: arr_get_def clamp_index_def)
  have cl: "(1::int) \<le> 4" "clamp_index 4 250 = 3" "clamp_index 4 (- 3) = 0" "clamp_index 4 2 = 2"
    by (simp_all add: clamp_index_def)
  from scrollToIndex_clamps [where sz = 4 and i = 250 and l = four_items and fn = None and align = Center
      and l' = four_items and m = "\<lparr>index = 3, start = 150, size_m = 50, end_m = 200, key = KNum 3\<rparr>"
      and ms = "[]" and so = "Some 0" and os = 200 and fn_js = None
      and ms' = "[]" and so' = "Some 0" and os' = 200
      and m_js = "\<lparr>index = 0, start = 0, size_m = 50, end_m = 50\<rparr>" and so_v = 0] sp(1)
  have a: "tryScrollToIndex four_items 4 None 250 Start = [(150, ToIndex)]"
    "tryScrollToIndex four_items 4 None 250 End = [(80, ToIndex)]"
    "tryScrollToIndex four_items 4 None 250 Auto = [(80, ToIndex)]"
    by (simp_all add: four_items_scroll scrollTo_def)
  from scrollToIndex_clamps [where sz = 4 and i = "- 3" and l = four_items and fn = None and align = Center
      and l' = four_items and m = "\<lparr>index = 0, start = 0, size_m = 50, end_m = 50, key = KNum 0\<rparr>"
      and ms = "[]" and so = "Some 0" and os = 200 and fn_js = None
      and ms' = "[]" and so' = "Some 0" and os' = 200
      and m_js = "\<lparr>index = 0, start = 0, size_m = 50, end_m = 50\<rparr>" and so_v = 0] sp(2)
  have b: "tryScrollToIndex four_items 4 None (- 3) Auto = [(0, ToIndex)]"
    by (simp add: four_items_scroll scrollTo_def)
  from scrollToIndex_clamps [where sz = 4 and i = 2 and l = four_items and fn = None and align = Center
      and l' = four_items and m = "\<lparr>index = 2, start = 100, size_m = 50, end_m = 150, key = KNum 2\<rparr>"
      and ms = "[]" and so = "Some 0" and os = 200 and fn_js = None
      and ms' = "[]" and so' = "Some 0" and os' = 200
      and m_js = "\<lparr>index = 0, start = 0, size_m = 50, end_m = 50\<rparr>" and so_v = 0] sp(3)
  have c: "tryScrollToIndex four_items 4 None 2 Auto = []"
    by (simp add: four_items_scroll)
  from scrollToIndex_clamps [where sz = 0 and i = 7 and l = "\<lparr>outerSize = 200, scrollOffset = 0, measurements = [], latest_totalSize = 0\<rparr>" and fn = None and align = Auto
      and l' = "\<lparr>outerSize = 200, scrollOffset = 0, measurements = [], latest_totalSize = 0\<rparr>" and m = "\<lparr>index = 0, start = 0, size_m = 50, end_m = 50, key = KNum 0\<rparr>"
      and ms = "[]" and so = "Some 0" and os = 200 and fn_js = None
      and ms' = "[]" and so' = "Some 0" and os' = 200
      and m_js = "\<lparr>index = 0, start = 0, size_m = 50, end_m = 50\<rparr>" and so_v = 0] none
  have d: "tryScrollToIndex \<lparr>outerSize = 200, scrollOffset = 0, measurements = [],
      latest_totalSize = 0\<rparr> 0 None 7 Auto = []"
    "tryScrollToIndex_js [] (Some 0) 200 0 None 7 Auto = []"
    by blast+
  from scrollToIndex_clamps [where sz = 1 and i = 9 and l = four_items and fn = None and align = Auto
      and l' = four_items and m = "\<lparr>index = 0, start = 0, size_m = 50, end_m = 50, key = KNum 0\<rparr>"
      and ms = "[Some \<lparr>index = 0, start = 0, size_m = 50, end_m = 50\<rparr>]" and so = "Some 0" and os = 200 and fn_js = None
      and ms' = "[Some \<lparr>index = 0, start = 0, size_m = 50, end_m = 50\<rparr>]" and so' = "Some 0" and os' = 200
      and m_js = "\<lparr>index = 0, start = 0, size_m = 50, end_m = 50\<rparr>" and so_v = 0] js
  have "tryScrollToIndex_js [Some \<lparr>index = 0, start = 0, size_m = 50, end_m = 50\<rparr>] (Some 0) 200 1
      None 9 Start = [start \<lparr>index = 0, start = 0, size_m = 50, end_m = 50\<rparr>]"
    by blast
  then have e: "tryScrollToIndex_js [Some \<lparr>index = 0, start = 0, size_m = 50, end_m = 50\<rparr>]
      (Some 0) 200 1 None 9 Start = [0]"
    by simp
  from cl sp(1) a b c none(1) d e show ?thesis
    by (intro conjI) assumption+
qed

section \<open>The measurement hook\<close>

text \<open>
  C8. When the measurement hook is called with an element whose measured size differs
  from the size of the item, the measured size is stored in the cache under the
  property named by the item's key (and the index is added to the pending indices);
  when in addition the start of the item is below the current scroll offset, the
  tracked scroll offset grows by \<open>measuredSize - item.size\<close> and the adapter's setter
  is called with the new value and the reason \<open>SizeChanged\<close>. In \<open>index.js\<close> the
  setter takes no reason and is called with \<open>scrollOffset + (measuredSize - item.size)\<close>.
\<close>

theorem measureRef_records_size:
  "(measureSize e horizontal \<noteq> size_m m \<longrightarrow>
      measuredCache (measureRef measureSize horizontal i (Some m) (Some e) st) =
        (measuredCache st)(prop_name (key m) \<mapsto> measureSize e horizontal) \<and>
      pendingMeasuredCacheIndexesRef (measureRef measureSize horizontal i (Some m) (Some e) st) =
        pendingMeasuredCacheIndexesRef st @ [i]) \<and>
   (measureSize e horizontal \<noteq> size_m m \<and> start m < scrollOffset (latestRef st) \<longrightarrow>
      scrollOffsetWithAdjustmentsRef (measureRef measureSize horizontal i (Some m) (Some e) st) =
        scrollOffsetWithAdjustmentsRef st + (measureSize e horizontal - size_m m) \<and>
      scroll_calls (measureRef measureSize horizontal i (Some m) (Some e) st) =
        scroll_calls st @
          [(scrollOffsetWithAdjustmentsRef st + (measureSize e horizontal - size_m m), SizeChanged)]) \<and>
   ((if horizontal then rect_width e else rect_height e) \<noteq> size_m item_js \<longrightarrow>
      measuredCache_js (measureRef_js horizontal keyExtractor so i item_js (Some e) st_js) =
        (measuredCache_js st_js)
          (prop_name (keyExtractor i) \<mapsto> (if horizontal then rect_width e else rect_height e))) \<and>
   ((if horizontal then rect_width e else rect_height e) \<noteq> size_m item_js \<and>
    start item_js < so_v \<longrightarrow>
      scroll_calls_js (measureRef_js horizontal keyExtractor (Some so_v) i item_js (Some e) st_js) =
        scroll_calls_js st_js @
          [so_v + ((if horizontal then rect_width e else rect_height e) - size_m item_js)])"
  by (simp add: measureRef_def measureRef_js_def Let_def split: option.splits)

theorem measureRef_records_size_witness:
  "defaultMeasureSize \<lparr>offsetWidth = 10, offsetHeight = 70, rect_width = 10, rect_height = 70\<rparr> False \<noteq>
     size_m \<lparr>index = 0, start = 0, size_m = 50, end_m = 50, key = KNum 0\<rparr> \<and>
   start \<lparr>index = 0, start = 0, size_m = 50, end_m = 50, key = KNum 0\<rparr> <
     scrollOffset (latestRef (useVirtual_scroll 200 120 (hook_initial 120))) \<and>
   measuredCache (measureRef defaultMeasureSize False 0
     (Some \<lparr>index = 0, start = 0, size_m = 50, end_m = 50, key = KNum 0\<rparr>)
     (Some \<lparr>offsetWidth = 10, offsetHeight = 70, rect_width = 10, rect_height = 70\<rparr>)
     (useVirtual_scroll 200 120 (hook_initial 120))) ''0'' = Some 70 \<and>
   scroll_calls (measureRef defaultMeasureSize False 0
     (Some \<lparr>index = 0, start = 0, size_m = 50, end_m = 50, key = KNum 0\<rparr>)
     (Some \<lparr>offsetWidth = 10, offsetHeight = 70, rect_width = 10, rect_height = 70\<rparr>)
     (useVirtual_scroll 200 120 (hook_initial 120))) = [(140, SizeChanged)] \<and>
   scroll_calls_js (measureRef_js False defaultKeyExtractor (Some 120) 0
     \<lparr>index = 0, start = 0, size_m = 50, end_m = 50\<rparr>
     (Some \<lparr>offsetWidth = 10, offsetHeight = 70, rect_width = 10, rect_height = 70\<rparr>)
     \<lparr>measuredCache_js = Map.empty, scroll_calls_js = []\<rparr>) = [140]"
  using measureRef_records_size [where measureSize = defaultMeasureSize and horizontal = False
      and e = "\<lparr>offsetWidth = 10, offsetHeight = 70, rect_width = 10, rect_height = 70\<rparr>"
      and m = "\<lparr>index = 0, start = 0, size_m = 50, end_m = 50, key = KNum 0\<rparr>"
      and item_js = "\<lparr>index = 0, start = 0, size_m = 50, end_m = 50\<rparr>"
      and i = 0 and st = "useVirtual_scroll 200 120 (hook_initial 120)"
      and keyExtractor = defaultKeyExtractor and so_v = 120 and so = "Some 120"
      and st_js = "\<lparr>measuredCache_js = Map.empty, scroll_calls_js = []\<rparr>"]
  by (simp add: defaultMeasureSize_def useVirtual_scroll_def hook_initial_def dec_int_def
      dec_nat.simps digit_char_def defaultKeyExtractor_def)

text \<open>
  C10. Calling the measurement hook with \<open>null\<close>, or with an element whose measured
  size equals the size of the item, returns the state as it was: the cache, the pending
  indices, the tracked scroll offset and the list of scroll calls are unchanged.
\<close>

theorem measureRef_no_change:
  "measureRef measureSize horizontal i item None st = st \<and>
   (measureSize e horizontal = size_m m \<longrightarrow>
      measureRef measureSize horizontal i (Some m) (Some e) st = st) \<and>
   measureRef_js horizontal keyExtractor so i item_js None st_js = st_js \<and>
   ((if horizontal then rect_width e else rect_height e) = size_m item_js \<longrightarrow>
      measureRef_js horizontal keyExtractor so i item_js (Some e) st_js = st_js)"
  by (simp add: measureRef_def measureRef_js_def)

theorem measureRef_no_change_witness:
  "defaultMeasureSize \<lparr>offsetWidth = 10, offsetHeight = 50, rect_width = 10, rect_height = 50\<rparr> False =
     size_m \<lparr>index = 0, start = 0, size_m = 50, end_m = 50, key = KNum 0\<rparr> \<and>
   measureRef defaultMeasureSize False 0
     (Some \<lparr>index = 0, start = 0, size_m = 50, end_m = 50, key = KNum 0\<rparr>)
     (Some \<lparr>offsetWidth = 10, offsetHeight = 50, rect_width = 10, rect_height = 50\<rparr>)
     (hook_initial 0) = hook_initial 0 \<and>
   measureRef_js False defaultKeyExtractor (Some 0) 0
     \<lparr>index = 0, start = 0, size_m = 50, end_m = 50\<rparr>
     (Some \<lparr>offsetWidth = 10, offsetHeight = 50, rect_width = 10, rect_height = 50\<rparr>)
     \<lparr>measuredCache_js = Map.empty, scroll_calls_js = []\<rparr> =
     \<lparr>measuredCache_js = Map.empty, scroll_calls_js = []\<rparr>"
  using measureRef_no_change [where measureSize = defaultMeasureSize and horizontal = False
      and e = "\<lparr>offsetWidth = 10, offsetHeight = 50, rect_width = 10, rect_height = 50\<rparr>"
      and m = "\<lparr>index = 0, start = 0, size_m = 50, end_m = 50, key = KNum 0\<rparr>"
      and item = "Some \<lparr>index = 0, start = 0, size_m = 50, end_m = 50, key = KNum 0\<rparr>"
      and item_js = "\<lparr>index = 0, start = 0, size_m = 50, end_m = 50\<rparr>"
      and i = 0 and st = "hook_initial 0" and keyExtractor = defaultKeyExtractor and so = "Some 0"
      and st_js = "\<lparr>measuredCache_js = Map.empty, scroll_calls_js = []\<rparr>"]
  by (simp add: defaultMeasureSize_def)

section \<open>The window as scroll source\<close>


section \<open>The total size of an empty list\<close>

lemma measurements_js_empty: "sz \<le> 0 \<Longrightarrow> measurements_js sz est kx ps c = []"
  by (simp add: measurements_js_def measurements_loop_js.simps)

lemma measurements_ts_empty: "sz \<le> 0 \<Longrightarrow> measurements_ts [] [] sz est kx ps c = []"
  by (simp add: measurements_ts_def pending_min_def slice0_def measurements_loop.simps)

text \<open>
  C2. With no items the spans are empty, and the total size is \<open>paddingEnd\<close>: here
  \<open>paddingStart = 10\<close> and \<open>paddingEnd = 5\<close> give 5, not 15. The fallback
  \<open>|| 0\<close> stands where the start padding is due.
\<close>

theorem totalSize_empty_list:
  "measurements_js 0 defaultEstimateSize defaultKeyExtractor 10 Map.empty = [] \<and>
   totalSize (measurements_js 0 defaultEstimateSize defaultKeyExtractor 10 Map.empty) 0 5 = 5 \<and>
   measurements_ts [] [] 0 defaultEstimateSize defaultKeyExtractor 10 Map.empty = [] \<and>
   totalSize (measurements_ts [] [] 0 defaultEstimateSize defaultKeyExtractor 10 Map.empty) 0 5 = 5"
  by (simp add: measurements_js_empty measurements_ts_empty totalSize_def arr_get_def)

section \<open>Writing at the end of an array\<close>

lemma arr_set_append: "arr_set xs (length xs) v = xs @ [Some v]"
  by (simp add: arr_set_def)

section \<open>The spans derived by the measurement store\<close>

lemma span_chain_Cons:
  assumes "span_chain s (a # ms)"
  obtains m where "a = Some m" "start m = s" "end_m m = start m + size_m m"
    "span_chain (end_m m) ms"
  using assms by (cases a) auto

lemma span_chain_dense: "span_chain s ms \<Longrightarrow> None \<notin> set ms"
proof (induction ms arbitrary: s)
  case Nil
  then show ?case by simp
next
  case (Cons a ms)
  then show ?case by (cases a) auto
qed

lemma span_chain_take: "span_chain s ms \<Longrightarrow> span_chain s (take n ms)"
proof (induction ms arbitrary: s n)
  case Nil
  then show ?case by simp
next
  case (Cons a ms)
  from Cons.prems obtain m where a: "a = Some m" and m: "start m = s"
    "end_m m = start m + size_m m" and rest: "span_chain (end_m m) ms"
    by (rule span_chain_Cons)
  show ?case
  proof (cases n)
    case 0
    then show ?thesis by simp
  next
    case (Suc k)
    with a m Cons.IH [OF rest, of k] show ?thesis by simp
  qed
qed

lemma last_end_Nil: "last_end ps [] = ps"
  by (simp add: last_end_def arr_get_def)

lemma last_end_last:
  assumes "ms \<noteq> []" and "last ms = Some p"
  shows "last_end ps ms = end_m p"
proof -
  from assms(1) have pos: "0 < length ms" by simp
  then have idx: "nat (int (length ms) - 1) = length ms - 1" by arith
  from assms have "ms ! (length ms - 1) = Some p" by (simp add: last_conv_nth)
  with idx pos show ?thesis by (simp add: last_end_def arr_get_def)
qed

lemma span_chain_snoc:
  "span_chain s ms \<Longrightarrow>
   span_chain s (ms @ [Some v]) = (start v = last_end s ms \<and> end_m v = start v + size_m v)"
proof (induction ms arbitrary: s)
  case Nil
  then show ?case by (simp add: last_end_Nil)
next
  case (Cons a ms)
  from Cons.prems obtain m where a: "a = Some m" and m: "start m = s"
    "end_m m = start m + size_m m" and rest: "span_chain (end_m m) ms"
    by (rule span_chain_Cons)
  have "last_end s (Some m # ms) = last_end (end_m m) ms"
  proof (cases "ms = []")
    case True
    then show ?thesis by (simp add: last_end_Nil last_end_last)
  next
    case False
    from span_chain_dense [OF rest] False obtain p where p: "last ms = Some p"
      by (cases "last ms") (auto dest: last_in_set)
    with False show ?thesis by (simp add: last_end_last)
  qed
  with Cons.IH [OF rest] a m show ?case by simp
qed

lemma last_end_start: "span_chain s ms \<Longrightarrow> ms \<noteq> [] \<Longrightarrow> last_end ps ms = last_end s ms"
proof -
  assume chain: "span_chain s ms" and ne: "ms \<noteq> []"
  from span_chain_dense [OF chain] ne obtain p where "last ms = Some p"
    by (cases "last ms") (auto dest: last_in_set)
  with ne show ?thesis by (simp add: last_end_last)
qed

lemma sizes_nonneg_snoc: "sizes_nonneg (ms @ [Some v]) = (sizes_nonneg ms \<and> 0 \<le> size_m v)"
proof (induction ms)
  case Nil
  then show ?case by simp
next
  case (Cons a ms)
  then show ?case by (cases a) auto
qed

lemma sizes_nonneg_take: "sizes_nonneg ms \<Longrightarrow> sizes_nonneg (take n ms)"
proof (induction ms arbitrary: n)
  case Nil
  then show ?case by simp
next
  case (Cons a ms)
  then show ?case by (cases n; cases a) auto
qed

text \<open>Every span is where the span before it ends, the first at \<open>s\<close>.\<close>

lemma span_chain_nth:
  "span_chain s ms \<Longrightarrow> j < length ms \<Longrightarrow>
   \<exists>m. ms ! j = Some m \<and> end_m m = start m + size_m m \<and>
       start m = (if j = 0 then s else end_m (the (ms ! (j - 1))))"
proof (induction ms arbitrary: s j)
  case Nil
  then show ?case by simp
next
  case (Cons a ms)
  from Cons.prems(1) obtain m where a: "a = Some m" and m: "start m = s"
    "end_m m = start m + size_m m" and rest: "span_chain (end_m m) ms"
    by (rule span_chain_Cons)
  show ?case
  proof (cases j)
    case 0
    with a m show ?thesis by simp
  next
    case (Suc k)
    with Cons.prems(2) have k: "k < length ms" by simp
    from Cons.IH [OF rest k] obtain m' where m': "ms ! k = Some m'"
      "end_m m' = start m' + size_m m'"
      "start m' = (if k = 0 then end_m m else end_m (the (ms ! (k - 1))))"
      by blast
    show ?thesis
    proof (cases k)
      case 0
      with Suc a m' show ?thesis by simp
    next
      case (Suc k')
      with \<open>j = Suc k\<close> a m' show ?thesis by simp
    qed
  qed
qed

subsection \<open>The loop of \<open>index.ts\<close>\<close>

lemma measurements_loop_stop:
  "\<not> int i < sz \<Longrightarrow> measurements_loop sz est kx ps c i ms = ms"
  by (subst measurements_loop.simps) simp

lemma measurements_loop_step:
  "int (length ms) < sz \<Longrightarrow>
   measurements_loop sz est kx ps c (length ms) ms =
     measurements_loop sz est kx ps c (Suc (length ms))
       (ms @ [Some \<lparr>index = length ms, start = last_end ps ms,
                    size_m = size_at est kx c (length ms),
                    end_m = last_end ps ms + size_at est kx c (length ms),
                    key = kx (length ms)\<rparr>])"
  by (subst measurements_loop.simps) (simp add: Let_def arr_set_append last_end_def size_at_def)

lemma measurements_loop_length:
  "length (measurements_loop sz est kx ps c (length ms) ms) = max (length ms) (nat sz)"
proof (induction "nat (sz - int (length ms))" arbitrary: ms)
  case 0
  then show ?case by (simp add: measurements_loop_stop)
next
  case (Suc k)
  then have lt: "int (length ms) < sz" by simp
  define ms' where "ms' = ms @ [Some \<lparr>index = length ms, start = last_end ps ms,
      size_m = size_at est kx c (length ms),
      end_m = last_end ps ms + size_at est kx c (length ms), key = kx (length ms)\<rparr>]"
  have len: "length ms' = Suc (length ms)" by (simp add: ms'_def)
  have "k = nat (sz - int (length ms'))" using Suc.hyps(2) len by simp
  from Suc.hyps(1) [OF this]
  have "length (measurements_loop sz est kx ps c (Suc (length ms)) ms') = max (Suc (length ms)) (nat sz)"
    by (simp add: len)
  with lt show ?case
    by (simp add: measurements_loop_step ms'_def)
qed

lemma measurements_loop_prefix:
  "j < length ms \<Longrightarrow> measurements_loop sz est kx ps c (length ms) ms ! j = ms ! j"
proof (induction "nat (sz - int (length ms))" arbitrary: ms)
  case 0
  then show ?case by (simp add: measurements_loop_stop)
next
  case (Suc k)
  then have lt: "int (length ms) < sz" by simp
  define ms' where "ms' = ms @ [Some \<lparr>index = length ms, start = last_end ps ms,
      size_m = size_at est kx c (length ms),
      end_m = last_end ps ms + size_at est kx c (length ms), key = kx (length ms)\<rparr>]"
  have len: "length ms' = Suc (length ms)" by (simp add: ms'_def)
  have "k = nat (sz - int (length ms'))" using Suc.hyps(2) len by simp
  moreover have "j < length ms'" using Suc.prems len by simp
  ultimately have "measurements_loop sz est kx ps c (length ms') ms' ! j = ms' ! j"
    by (rule Suc.hyps(1))
  then have "measurements_loop sz est kx ps c (Suc (length ms)) ms' ! j = ms ! j"
    using Suc.prems by (simp add: len) (simp add: ms'_def nth_append)
  with lt show ?case
    by (simp add: measurements_loop_step ms'_def)
qed

lemma measurements_loop_sizes:
  "length ms \<le> j \<Longrightarrow> int j < sz \<Longrightarrow>
   \<exists>m. measurements_loop sz est kx ps c (length ms) ms ! j = Some m \<and> index m = j \<and>
       key m = kx j \<and> size_m m = size_at est kx c j"
proof (induction "nat (sz - int (length ms))" arbitrary: ms)
  case 0
  then show ?case by simp
next
  case (Suc k)
  then have lt: "int (length ms) < sz" by simp
  define v where "v = \<lparr>index = length ms, start = last_end ps ms,
      size_m = size_at est kx c (length ms),
      end_m = last_end ps ms + size_at est kx c (length ms), key = kx (length ms)\<rparr>"
  define ms' where "ms' = ms @ [Some v]"
  have len: "length ms' = Suc (length ms)" by (simp add: ms'_def)
  have step: "measurements_loop sz est kx ps c (length ms) ms =
      measurements_loop sz est kx ps c (length ms') ms'"
    using lt by (simp add: measurements_loop_step ms'_def v_def)
  show ?case
  proof (cases "j = length ms")
    case True
    then have "measurements_loop sz est kx ps c (length ms') ms' ! j = ms' ! j"
      by (intro measurements_loop_prefix) (simp add: len)
    also have "ms' ! j = Some v" using True by (simp add: ms'_def)
    finally show ?thesis
      unfolding step using True by (simp add: v_def)
  next
    case False
    have "k = nat (sz - int (length ms'))" using Suc.hyps(2) len by simp
    moreover have "length ms' \<le> j" using False Suc.prems(1) len by simp
    ultimately show ?thesis
      unfolding step using Suc.prems(2) by (rule Suc.hyps(1))
  qed
qed

lemma measurements_loop_chain:
  "span_chain s ms \<Longrightarrow> ms = [] \<longrightarrow> s = ps \<Longrightarrow>
   span_chain s (measurements_loop sz est kx ps c (length ms) ms)"
proof (induction "nat (sz - int (length ms))" arbitrary: ms)
  case 0
  then show ?case by (simp add: measurements_loop_stop)
next
  case (Suc k)
  then have lt: "int (length ms) < sz" by simp
  define v where "v = \<lparr>index = length ms, start = last_end ps ms,
      size_m = size_at est kx c (length ms),
      end_m = last_end ps ms + size_at est kx c (length ms), key = kx (length ms)\<rparr>"
  define ms' where "ms' = ms @ [Some v]"
  have len: "length ms' = Suc (length ms)" by (simp add: ms'_def)
  have step: "measurements_loop sz est kx ps c (length ms) ms =
      measurements_loop sz est kx ps c (length ms') ms'"
    using lt by (simp add: measurements_loop_step ms'_def v_def)
  have "last_end ps ms = last_end s ms"
  proof (cases "ms = []")
    case True
    with Suc.prems(2) show ?thesis by simp
  next
    case False
    with Suc.prems(1) show ?thesis by (rule last_end_start)
  qed
  then have "span_chain s ms'"
    using Suc.prems(1) by (simp add: ms'_def span_chain_snoc) (simp add: v_def)
  moreover have "k = nat (sz - int (length ms'))" using Suc.hyps(2) len by simp
  moreover have "ms' = [] \<longrightarrow> s = ps" by (simp add: ms'_def)
  ultimately show ?case
    unfolding step by (intro Suc.hyps(1))
qed

lemma measurements_loop_nonneg:
  "sizes_nonneg ms \<Longrightarrow> \<forall>j. 0 \<le> size_at est kx c j \<Longrightarrow>
   sizes_nonneg (measurements_loop sz est kx ps c (length ms) ms)"
proof (induction "nat (sz - int (length ms))" arbitrary: ms)
  case 0
  then show ?case by (simp add: measurements_loop_stop)
next
  case (Suc k)
  then have lt: "int (length ms) < sz" by simp
  define v where "v = \<lparr>index = length ms, start = last_end ps ms,
      size_m = size_at est kx c (length ms),
      end_m = last_end ps ms + size_at est kx c (length ms), key = kx (length ms)\<rparr>"
  define ms' where "ms' = ms @ [Some v]"
  have len: "length ms' = Suc (length ms)" by (simp add: ms'_def)
  have step: "measurements_loop sz est kx ps c (length ms) ms =
      measurements_loop sz est kx ps c (length ms') ms'"
    using lt by (simp add: measurements_loop_step ms'_def v_def)
  have "sizes_nonneg ms'"
    using Suc.prems by (simp add: ms'_def sizes_nonneg_snoc v_def)
  moreover have "k = nat (sz - int (length ms'))" using Suc.hyps(2) len by simp
  ultimately show ?case
    unfolding step using Suc.prems(2) by (intro Suc.hyps(1))
qed

text \<open>
  A recomputation from index 0, and one that reuses spans which satisfy the invariants
  for the same \<open>paddingStart\<close>, give a span sequence.
\<close>

lemma measurements_ts_chain:
  assumes "span_chain ps prev" and "pending_min pending \<le> length prev"
  shows "span_chain ps (measurements_ts prev pending sz est kx ps c)"
proof -
  define ms where "ms = take (pending_min pending) prev"
  have len: "length ms = pending_min pending"
    using assms(2) by (simp add: ms_def)
  have "span_chain ps ms"
    using assms(1) by (simp add: ms_def span_chain_take)
  then have "span_chain ps (measurements_loop sz est kx ps c (length ms) ms)"
    by (rule measurements_loop_chain) simp
  then show ?thesis
    by (simp add: measurements_ts_def slice0_def Let_def len flip: ms_def)
qed

lemma measurements_ts_nonneg:
  assumes "sizes_nonneg prev" and "pending_min pending \<le> length prev"
    and "\<forall>j. 0 \<le> size_at est kx c j"
  shows "sizes_nonneg (measurements_ts prev pending sz est kx ps c)"
proof -
  define ms where "ms = take (pending_min pending) prev"
  have len: "length ms = pending_min pending"
    using assms(2) by (simp add: ms_def)
  have "sizes_nonneg ms"
    using assms(1) by (simp add: ms_def sizes_nonneg_take)
  then have "sizes_nonneg (measurements_loop sz est kx ps c (length ms) ms)"
    using assms(3) by (rule measurements_loop_nonneg)
  then show ?thesis
    by (simp add: measurements_ts_def slice0_def Let_def len flip: ms_def)
qed

lemma pending_min_Nil: "pending_min [] = 0"
  by (simp add: pending_min_def)

lemma measurements_ts_full:
  "measurements_ts prev [] sz est kx ps c = measurements_loop sz est kx ps c 0 []"
  by (simp add: measurements_ts_def pending_min_Nil slice0_def)

lemma measurements_ts_full_chain:
  "span_chain ps (measurements_ts prev [] sz est kx ps c)"
  using measurements_loop_chain [of ps "[]" ps sz est kx c]
  by (simp add: measurements_ts_full)

lemma measurements_ts_full_length:
  "length (measurements_ts prev [] sz est kx ps c) = nat sz"
  using measurements_loop_length [of sz est kx ps c "[]"]
  by (simp add: measurements_ts_full)

lemma measurements_ts_full_sizes:
  "int j < sz \<Longrightarrow>
   \<exists>m. measurements_ts prev [] sz est kx ps c ! j = Some m \<and> index m = j \<and> key m = kx j \<and>
       size_m m = size_at est kx c j"
  using measurements_loop_sizes [of "[]" j sz est kx ps c]
  by (simp add: measurements_ts_full)

lemma measurements_ts_full_nonneg:
  "\<forall>j. 0 \<le> size_at est kx c j \<Longrightarrow> sizes_nonneg (measurements_ts prev [] sz est kx ps c)"
  using measurements_loop_nonneg [of "[]" est kx c sz ps]
  by (simp add: measurements_ts_full)

subsection \<open>The loop of \<open>index.js\<close>\<close>

lemma measurements_loop_js_stop:
  "\<not> int i < sz \<Longrightarrow> measurements_loop_js sz est kx ps c i ms = ms"
  by (subst measurements_loop_js.simps) simp

lemma measurements_loop_js_step:
  "int (length ms) < sz \<Longrightarrow>
   measurements_loop_js sz est kx ps c (length ms) ms =
     measurements_loop_js sz est kx ps c (Suc (length ms))
       (ms @ [Some \<lparr>index = length ms, start = last_end ps ms,
                    size_m = size_at est kx c (length ms),
                    end_m = last_end ps ms + size_at est kx c (length ms)\<rparr>])"
  by (subst measurements_loop_js.simps) (simp add: Let_def arr_set_append last_end_def size_at_def)

lemma measurements_loop_js_length:
  "length (measurements_loop_js sz est kx ps c (length ms) ms) = max (length ms) (nat sz)"
proof (induction "nat (sz - int (length ms))" arbitrary: ms)
  case 0
  then show ?case by (simp add: measurements_loop_js_stop)
next
  case (Suc k)
  then have lt: "int (length ms) < sz" by simp
  define ms' where "ms' = ms @ [Some \<lparr>index = length ms, start = last_end ps ms,
      size_m = size_at est kx c (length ms),
      end_m = last_end ps ms + size_at est kx c (length ms)\<rparr>]"
  have len: "length ms' = Suc (length ms)" by (simp add: ms'_def)
  have "k = nat (sz - int (length ms'))" using Suc.hyps(2) len by simp
  from Suc.hyps(1) [OF this]
  have "length (measurements_loop_js sz est kx ps c (Suc (length ms)) ms') = max (Suc (length ms)) (nat sz)"
    by (simp add: len)
  with lt show ?case
    by (simp add: measurements_loop_js_step ms'_def)
qed

lemma measurements_loop_js_prefix:
  "j < length ms \<Longrightarrow> measurements_loop_js sz est kx ps c (length ms) ms ! j = ms ! j"
proof (induction "nat (sz - int (length ms))" arbitrary: ms)
  case 0
  then show ?case by (simp add: measurements_loop_js_stop)
next
  case (Suc k)
  then have lt: "int (length ms) < sz" by simp
  define ms' where "ms' = ms @ [Some \<lparr>index = length ms, start = last_end ps ms,
      size_m = size_at est kx c (length ms),
      end_m = last_end ps ms + size_at est kx c (length ms)\<rparr>]"
  have len: "length ms' = Suc (length ms)" by (simp add: ms'_def)
  have "k = nat (sz - int (length ms'))" using Suc.hyps(2) len by simp
  moreover have "j < length ms'" using Suc.prems len by simp
  ultimately have "measurements_loop_js sz est kx ps c (length ms') ms' ! j = ms' ! j"
    by (rule Suc.hyps(1))
  then have "measurements_loop_js sz est kx ps c (Suc (length ms)) ms' ! j = ms ! j"
    using Suc.prems by (simp add: len) (simp add: ms'_def nth_append)
  with lt show ?case
    by (simp add: measurements_loop_js_step ms'_def)
qed

lemma measurements_loop_js_sizes:
  "length ms \<le> j \<Longrightarrow> int j < sz \<Longrightarrow>
   \<exists>m. measurements_loop_js sz est kx ps c (length ms) ms ! j = Some m \<and> index m = j \<and>
       size_m m = size_at est kx c j"
proof (induction "nat (sz - int (length ms))" arbitrary: ms)
  case 0
  then show ?case by simp
next
  case (Suc k)
  then have lt: "int (length ms) < sz" by simp
  define v where "v = \<lparr>index = length ms, start = last_end ps ms,
      size_m = size_at est kx c (length ms),
      end_m = last_end ps ms + size_at est kx c (length ms)\<rparr>"
  define ms' where "ms' = ms @ [Some v]"
  have len: "length ms' = Suc (length ms)" by (simp add: ms'_def)
  have step: "measurements_loop_js sz est kx ps c (length ms) ms =
      measurements_loop_js sz est kx ps c (length ms') ms'"
    using lt by (simp add: measurements_loop_js_step ms'_def v_def)
  show ?case
  proof (cases "j = length ms")
    case True
    then have "measurements_loop_js sz est kx ps c (length ms') ms' ! j = ms' ! j"
      by (intro measurements_loop_js_prefix) (simp add: len)
    also have "ms' ! j = Some v" using True by (simp add: ms'_def)
    finally show ?thesis
      unfolding step using True by (simp add: v_def)
  next
    case False
    have "k = nat (sz - int (length ms'))" using Suc.hyps(2) len by simp
    moreover have "length ms' \<le> j" using False Suc.prems(1) len by simp
    ultimately show ?thesis
      unfolding step using Suc.prems(2) by (rule Suc.hyps(1))
  qed
qed

lemma measurements_loop_js_chain:
  "span_chain s ms \<Longrightarrow> ms = [] \<longrightarrow> s = ps \<Longrightarrow>
   span_chain s (measurements_loop_js sz est kx ps c (length ms) ms)"
proof (induction "nat (sz - int (length ms))" arbitrary: ms)
  case 0
  then show ?case by (simp add: measurements_loop_js_stop)
next
  case (Suc k)
  then have lt: "int (length ms) < sz" by simp
  define v where "v = \<lparr>index = length ms, start = last_end ps ms,
      size_m = size_at est kx c (length ms),
      end_m = last_end ps ms + size_at est kx c (length ms)\<rparr>"
  define ms' where "ms' = ms @ [Some v]"
  have len: "length ms' = Suc (length ms)" by (simp add: ms'_def)
  have step: "measurements_loop_js sz est kx ps c (length ms) ms =
      measurements_loop_js sz est kx ps c (length ms') ms'"
    using lt by (simp add: measurements_loop_js_step ms'_def v_def)
  have "last_end ps ms = last_end s ms"
  proof (cases "ms = []")
    case True
    with Suc.prems(2) show ?thesis by simp
  next
    case False
    with Suc.prems(1) show ?thesis by (rule last_end_start)
  qed
  then have "span_chain s ms'"
    using Suc.prems(1) by (simp add: ms'_def span_chain_snoc) (simp add: v_def)
  moreover have "k = nat (sz - int (length ms'))" using Suc.hyps(2) len by simp
  moreover have "ms' = [] \<longrightarrow> s = ps" by (simp add: ms'_def)
  ultimately show ?case
    unfolding step by (intro Suc.hyps(1))
qed

lemma measurements_js_chain: "span_chain ps (measurements_js sz est kx ps c)"
  using measurements_loop_js_chain [of ps "[]" ps sz est kx c]
  by (simp add: measurements_js_def)

lemma measurements_js_length: "length (measurements_js sz est kx ps c) = nat sz"
  using measurements_loop_js_length [of sz est kx ps c "[]"]
  by (simp add: measurements_js_def)

lemma measurements_js_sizes:
  "int j < sz \<Longrightarrow>
   \<exists>m. measurements_js sz est kx ps c ! j = Some m \<and> index m = j \<and>
       size_m m = size_at est kx c j"
  using measurements_loop_js_sizes [of "[]" j sz est kx ps c]
  by (simp add: measurements_js_def)

text \<open>
  In \<open>index.js\<close> the spans are as C1 and C3 describe them, for every item count,
  estimator, key function, padding and cache.
\<close>

lemma measurements_js_spans:
  assumes "int j < sz"
  shows "\<exists>m. measurements_js sz est kx ps c ! j = Some m \<and>
     start m = (if j = 0 then ps else end_m (the (measurements_js sz est kx ps c ! (j - 1)))) \<and>
     end_m m = start m + size_m m \<and> size_m m = size_at est kx c j"
proof -
  from assms have "j < length (measurements_js sz est kx ps c)"
    by (simp add: measurements_js_length)
  from span_chain_nth [OF measurements_js_chain this]
  obtain m where m: "measurements_js sz est kx ps c ! j = Some m"
    "end_m m = start m + size_m m"
    "start m = (if j = 0 then ps else end_m (the (measurements_js sz est kx ps c ! (j - 1))))"
    by blast
  from measurements_js_sizes [OF assms, of est kx ps c] m(1)
  have "size_m m = size_at est kx c j" by auto
  with m show ?thesis by simp
qed

text \<open>So are they in \<open>index.ts\<close> after a recomputation from index 0.\<close>

lemma measurements_ts_full_spans:
  assumes "int j < sz"
  shows "\<exists>m. measurements_ts prev [] sz est kx ps c ! j = Some m \<and>
     start m = (if j = 0 then ps else end_m (the (measurements_ts prev [] sz est kx ps c ! (j - 1)))) \<and>
     end_m m = start m + size_m m \<and> size_m m = size_at est kx c j"
proof -
  from assms have "j < length (measurements_ts prev [] sz est kx ps c)"
    by (simp add: measurements_ts_full_length)
  from span_chain_nth [OF measurements_ts_full_chain this]
  obtain m where m: "measurements_ts prev [] sz est kx ps c ! j = Some m"
    "end_m m = start m + size_m m"
    "start m = (if j = 0 then ps
                else end_m (the (measurements_ts prev [] sz est kx ps c ! (j - 1))))"
    by blast
  from measurements_ts_full_sizes [OF assms, of prev est kx ps c] m(1)
  have "size_m m = size_at est kx c j" by auto
  with m show ?thesis by simp
qed

subsection \<open>Reused spans that are out of date\<close>

lemma first_render_eq:
  "first_render =
     \<lparr>latestRef = \<lparr>outerSize = 0, scrollOffset = 0,
        measurements =
          [Some \<lparr>index = 0, start = 0, size_m = 50, end_m = 50, key = KNum 0\<rparr>,
           Some \<lparr>index = 1, start = 50, size_m = 50, end_m = 100, key = KNum 1\<rparr>],
        latest_totalSize = 100\<rparr>,
      scrollOffsetWithAdjustmentsRef = 0, measuredCache = Map.empty,
      pendingMeasuredCacheIndexesRef = [], scroll_calls = []\<rparr>"
  by (simp add: first_render_def useVirtual_measurements_def hook_initial_def
      measurements_ts_def pending_min_def slice0_def measurements_loop.simps arr_set_def
      arr_get_def defaultEstimateSize_def defaultKeyExtractor_def totalSize_def Let_def)

lemma key_names: "dec_int 0 = ''0''" "dec_int 1 = ''1''" "dec_int 2 = ''2''" "dec_int 3 = ''3''"
  by (simp_all add: dec_int_def dec_nat.simps digit_char_def)

lemma item1_measured_eq:
  "item1_measured =
     \<lparr>latestRef = \<lparr>outerSize = 0, scrollOffset = 0,
        measurements =
          [Some \<lparr>index = 0, start = 0, size_m = 50, end_m = 50, key = KNum 0\<rparr>,
           Some \<lparr>index = 1, start = 50, size_m = 50, end_m = 100, key = KNum 1\<rparr>],
        latest_totalSize = 100\<rparr>,
      scrollOffsetWithAdjustmentsRef = 0, measuredCache = [''1'' \<mapsto> 70],
      pendingMeasuredCacheIndexesRef = [1], scroll_calls = []\<rparr>"
  by (simp add: item1_measured_def first_render_eq measureRef_def arr_get_def
      defaultMeasureSize_def tall_element_def key_names)

text \<open>
  C1. In \<open>index.ts\<close> a recomputation keeps the spans below the least pending index
  as they are. In history A item 1 reports its size, and the render that follows has
  \<open>paddingStart = 10\<close>: span 0 is the one of the render before and starts at 0.
  A recomputation from index 0 with the same options and cache starts span 0 at 10.
\<close>

theorem stale_prefix_paddingStart:
  "pendingMeasuredCacheIndexesRef item1_measured = [1] \<and>
   measurements (latestRef padding_changed) =
     [Some \<lparr>index = 0, start = 0, size_m = 50, end_m = 50, key = KNum 0\<rparr>,
      Some \<lparr>index = 1, start = 50, size_m = 70, end_m = 120, key = KNum 1\<rparr>] \<and>
   measurements_ts [] [] 2 defaultEstimateSize defaultKeyExtractor 10 (measuredCache item1_measured) =
     [Some \<lparr>index = 0, start = 10, size_m = 50, end_m = 60, key = KNum 0\<rparr>,
      Some \<lparr>index = 1, start = 60, size_m = 70, end_m = 130, key = KNum 1\<rparr>]"
  by (simp add: padding_changed_def item1_measured_eq useVirtual_measurements_def
      measurements_ts_def pending_min_def slice0_def measurements_loop.simps arr_set_def
      arr_get_def defaultEstimateSize_def defaultKeyExtractor_def totalSize_def Let_def key_names)

lemma item0_measured_eq:
  "item0_measured =
     \<lparr>latestRef = \<lparr>outerSize = 0, scrollOffset = 0,
        measurements =
          [Some \<lparr>index = 0, start = 0, size_m = 70, end_m = 70, key = KNum 0\<rparr>,
           Some \<lparr>index = 1, start = 70, size_m = 50, end_m = 120, key = KNum 1\<rparr>],
        latest_totalSize = 120\<rparr>,
      scrollOffsetWithAdjustmentsRef = 0, measuredCache = [''0'' \<mapsto> 70],
      pendingMeasuredCacheIndexesRef = [], scroll_calls = []\<rparr>"
  by (simp add: item0_measured_def first_render_eq measureRef_def useVirtual_measurements_def
      measurements_ts_def pending_min_def slice0_def measurements_loop.simps arr_set_def
      arr_get_def defaultMeasureSize_def tall_element_def defaultEstimateSize_def
      defaultKeyExtractor_def totalSize_def Let_def key_names)

text \<open>
  C3. In history B item 1 reports its size and \<open>measure()\<close> empties the cache before
  the next render. That render keeps span 0, which is below the pending index 1, with
  the size 70 that was measured before, although the cache has no entry under the key
  of item 0 and \<open>estimateSize(0)\<close> is 50.
\<close>

theorem stale_prefix_size:
  "measuredCache cache_reset (prop_name (defaultKeyExtractor 0)) = None \<and>
   defaultEstimateSize 0 = 50 \<and>
   measurements (latestRef cache_reset) =
     [Some \<lparr>index = 0, start = 0, size_m = 70, end_m = 70, key = KNum 0\<rparr>,
      Some \<lparr>index = 1, start = 70, size_m = 50, end_m = 120, key = KNum 1\<rparr>]"
  by (simp add: cache_reset_def item0_measured_eq measureRef_def measure_reset_def
      useVirtual_measurements_def measurements_ts_def pending_min_def slice0_def
      measurements_loop.simps arr_set_def arr_get_def defaultMeasureSize_def short_element_def
      defaultEstimateSize_def defaultKeyExtractor_def totalSize_def Let_def key_names)

section \<open>Span sequences are sorted\<close>

lemma span_chain_first:
  "span_chain s ms \<Longrightarrow> sizes_nonneg ms \<Longrightarrow> j < length ms \<Longrightarrow>
   s \<le> start (the (ms ! j)) \<and> start (the (ms ! j)) \<le> end_m (the (ms ! j))"
proof (induction ms arbitrary: s j)
  case Nil
  then show ?case by simp
next
  case (Cons a ms)
  from Cons.prems(1) obtain m where a: "a = Some m" and m: "start m = s"
    "end_m m = start m + size_m m" and rest: "span_chain (end_m m) ms"
    by (rule span_chain_Cons)
  from Cons.prems(2) a have nn: "0 \<le> size_m m" "sizes_nonneg ms"
    by simp_all
  show ?case
  proof (cases j)
    case 0
    with a m nn show ?thesis by simp
  next
    case (Suc k)
    with Cons.prems(3) have "k < length ms" by simp
    from Cons.IH [OF rest nn(2) this]
    have "end_m m \<le> start (the (ms ! k))" "start (the (ms ! k)) \<le> end_m (the (ms ! k))"
      by simp_all
    moreover have "s \<le> end_m m" using m nn by simp
    ultimately show ?thesis using Suc by simp
  qed
qed

lemma span_chain_ordered:
  "span_chain s ms \<Longrightarrow> sizes_nonneg ms \<Longrightarrow> i < j \<Longrightarrow> j < length ms \<Longrightarrow>
   end_m (the (ms ! i)) \<le> start (the (ms ! j))"
proof (induction ms arbitrary: s i j)
  case Nil
  then show ?case by simp
next
  case (Cons a ms)
  from Cons.prems(1) obtain m where a: "a = Some m" and m: "start m = s"
    "end_m m = start m + size_m m" and rest: "span_chain (end_m m) ms"
    by (rule span_chain_Cons)
  from Cons.prems(2) a have nn: "0 \<le> size_m m" "sizes_nonneg ms"
    by simp_all
  from Cons.prems(3) obtain k where j: "j = Suc k"
    by (cases j) auto
  with Cons.prems(4) have k: "k < length ms" by simp
  show ?case
  proof (cases i)
    case 0
    have "end_m m \<le> start (the (ms ! k))"
      using span_chain_first [OF rest nn(2) k] by simp
    with 0 a j show ?thesis by simp
  next
    case (Suc i')
    with Cons.prems(3) j have "i' < k" by simp
    from Cons.IH [OF rest nn(2) this k]
    show ?thesis using Suc j by simp
  qed
qed

lemma span_chain_sorted:
  assumes "span_chain s ms" "sizes_nonneg ms"
  shows "sorted (starts ms)"
proof -
  have "starts ms ! i \<le> starts ms ! j" if "i \<le> j" "j < length ms" for i j
  proof (cases "i = j")
    case True
    then show ?thesis by simp
  next
    case False
    with that have "i < j" by simp
    then have "end_m (the (ms ! i)) \<le> start (the (ms ! j))"
      using span_chain_ordered [OF assms] that by simp
    moreover have "start (the (ms ! i)) \<le> end_m (the (ms ! i))"
      using span_chain_first [OF assms, of i] that by simp
    ultimately show ?thesis using that by (simp add: starts_def)
  qed
  then show ?thesis
    by (simp add: sorted_iff_nth_mono starts_def)
qed

section \<open>The binary search\<close>

lemma middle_of_div:
  assumes "0 \<le> low" "low \<le> high" "high < 2 ^ 31"
  shows "middle_of low high = (low + high) div 2"
proof -
  have "0 \<le> (low + high) div 2" "(low + high) div 2 < 2 ^ 31"
    using assms by auto
  then show ?thesis
    using assms by (simp add: middle_of_def toInt32_def Let_def)
qed

text \<open>
  The loop invariant: everything below \<open>low\<close> is smaller than the value sought,
  everything above \<open>high\<close> is greater.
\<close>

lemma findNearestBinarySearch_sorted:
  assumes g: "\<forall>i. 0 \<le> i \<and> i < n \<longrightarrow> g i = Inr (f i)"
    and mono: "\<forall>i j. 0 \<le> i \<and> i \<le> j \<and> j < n \<longrightarrow> f i \<le> f j"
    and n: "n \<le> 2 ^ 31"
  shows "0 \<le> low \<Longrightarrow> high < n \<Longrightarrow> low \<le> high + 1 \<Longrightarrow>
     (\<forall>i. 0 \<le> i \<and> i < low \<longrightarrow> f i < v) \<Longrightarrow>
     (\<forall>i. high < i \<and> i < n \<longrightarrow> v < f i) \<Longrightarrow>
     \<exists>s. findNearestBinarySearch low high g v = Some (Inr s) \<and> 0 \<le> s \<and> (s < n \<or> s = 0) \<and>
       ((\<forall>i. 0 \<le> i \<and> i < n \<longrightarrow> v < f i) \<longrightarrow> s = 0) \<and>
       ((\<exists>i. 0 \<le> i \<and> i < n \<and> f i \<le> v) \<longrightarrow>
          s < n \<and> f s \<le> v \<and> (\<forall>i. s < i \<and> i < n \<longrightarrow> v \<le> f i) \<and>
          (f s < v \<longrightarrow> (\<forall>i. s < i \<and> i < n \<longrightarrow> v < f i)))"
proof (induction "nat (high + 1 - low)" arbitrary: low high rule: less_induct)
  case less
  show ?case
  proof (cases "low \<le> high")
    case False
    then have eq: "high = low - 1" using less.prems by simp
    have res: "findNearestBinarySearch low high g v = Some (Inr (if low > 0 then low - 1 else 0))"
      using False by (subst findNearestBinarySearch.simps) simp
    show ?thesis
    proof (cases "low > 0")
      case True
      define s where "s = low - 1"
      have s0: "0 \<le> s" "s < n" "s < low"
        using True less.prems eq by (simp_all add: s_def)
      then have fs: "f s < v" using less.prems by simp
      have later: "\<forall>i. s < i \<and> i < n \<longrightarrow> v < f i"
        using less.prems eq by (simp add: s_def)
      have not_all: "\<not> (\<forall>i. 0 \<le> i \<and> i < n \<longrightarrow> v < f i)"
        using s0 fs by (intro notI) (auto dest: spec [of _ s])
      have "findNearestBinarySearch low high g v = Some (Inr s)"
        using res True by (simp add: s_def)
      moreover have "f s \<le> v" using fs by simp
      moreover have "\<forall>i. s < i \<and> i < n \<longrightarrow> v \<le> f i"
        using later by (simp add: less_imp_le)
      ultimately show ?thesis
        using s0 not_all later by blast
    next
      case False
      then have l0: "low = 0" using less.prems by simp
      then have "\<forall>i. 0 \<le> i \<and> i < n \<longrightarrow> v < f i" using less.prems eq by simp
      then show ?thesis
        using res l0 by (auto simp: not_le)
    qed
  next
    case True
    define mid where "mid = (low + high) div 2"
    have "high < 2 ^ 31" using less.prems n by simp
    then have mo: "middle_of low high = mid"
      using middle_of_div [of low high] True less.prems by (simp add: mid_def)
    have mid_range: "low \<le> mid" "mid \<le> high" "0 \<le> mid" "mid < n"
      using True less.prems by (auto simp: mid_def)
    then have gm: "g mid = Inr (f mid)" using g by simp
    consider (lt) "f mid < v" | (gt) "f mid > v" | (eq) "f mid = v"
      by fastforce
    then show ?thesis
    proof cases
      case lt
      have step: "findNearestBinarySearch low high g v = findNearestBinarySearch (mid + 1) high g v"
        using True lt by (subst findNearestBinarySearch.simps) (simp add: mo gm Let_def)
      have below: "\<forall>i. 0 \<le> i \<and> i < mid + 1 \<longrightarrow> f i < v"
      proof (intro allI impI)
        fix i assume "0 \<le> i \<and> i < mid + 1"
        then have "f i \<le> f mid" using mono mid_range by simp
        then show "f i < v" using lt by simp
      qed
      have "nat (high + 1 - (mid + 1)) < nat (high + 1 - low)"
        using mid_range True by simp
      from less.hyps [OF this _ less.prems(2) _ below less.prems(5)] mid_range
      show ?thesis unfolding step by simp
    next
      case gt
      have step: "findNearestBinarySearch low high g v = findNearestBinarySearch low (mid - 1) g v"
        using True gt by (subst findNearestBinarySearch.simps) (simp add: mo gm Let_def)
      have above: "\<forall>i. mid - 1 < i \<and> i < n \<longrightarrow> v < f i"
      proof (intro allI impI)
        fix i assume "mid - 1 < i \<and> i < n"
        then have "f mid \<le> f i" using mono mid_range by simp
        then show "v < f i" using gt by simp
      qed
      have "nat (mid - 1 + 1 - low) < nat (high + 1 - low)"
        using mid_range True by simp
      from less.hyps [OF this less.prems(1) _ _ less.prems(4) above] mid_range
      show ?thesis unfolding step by simp
    next
      case eq
      have res: "findNearestBinarySearch low high g v = Some (Inr mid)"
        using True eq by (subst findNearestBinarySearch.simps) (simp add: mo gm Let_def)
      have "\<forall>i. mid < i \<and> i < n \<longrightarrow> v \<le> f i"
      proof (intro allI impI)
        fix i assume "mid < i \<and> i < n"
        then have "f mid \<le> f i" using mono mid_range by simp
        then show "v \<le> f i" using eq by simp
      qed
      then show ?thesis
        using res mid_range eq by (auto simp: not_less)
    qed
  qed
qed

text \<open>The search over the starts of a dense, sorted array, with natural numbers as indices.\<close>

lemma findNearestBinarySearch_starts:
  assumes dense: "None \<notin> set ms" and sorted: "sorted (starts ms)"
    and len: "length ms \<le> 2 ^ 31"
  shows "\<exists>s. findNearestBinarySearch 0 (int (length ms) - 1) (getOffset ms) v = Some (Inr (int s)) \<and>
     (s < length ms \<or> s = 0) \<and>
     ((\<forall>i<length ms. v < starts ms ! i) \<longrightarrow> s = 0) \<and>
     ((\<exists>i<length ms. starts ms ! i \<le> v) \<longrightarrow>
        s < length ms \<and> starts ms ! s \<le> v \<and> (\<forall>i<length ms. s < i \<longrightarrow> v \<le> starts ms ! i) \<and>
        (starts ms ! s < v \<longrightarrow> (\<forall>i<length ms. s < i \<longrightarrow> v < starts ms ! i)))"
proof -
  define n where "n = int (length ms)"
  define f where "f = (\<lambda>i. starts ms ! nat i)"
  have g: "\<forall>i. 0 \<le> i \<and> i < n \<longrightarrow> getOffset ms i = Inr (f i)"
  proof (intro allI impI)
    fix i assume i: "0 \<le> i \<and> i < n"
    then have lt: "nat i < length ms" by (auto simp: n_def)
    then have "ms ! nat i \<in> set ms" by simp
    with dense obtain m where "ms ! nat i = Some m"
      by (cases "ms ! nat i") auto
    with i lt show "getOffset ms i = Inr (f i)"
      by (simp add: getOffset_def arr_get_def f_def starts_def n_def)
  qed
  have mono: "\<forall>i j. 0 \<le> i \<and> i \<le> j \<and> j < n \<longrightarrow> f i \<le> f j"
    using sorted by (auto simp: f_def n_def starts_def sorted_iff_nth_mono)
  have n: "n \<le> 2 ^ 31" using len by (simp add: n_def)
  have n0: "0 \<le> n" by (simp add: n_def)
  have "\<exists>s. findNearestBinarySearch 0 (n - 1) (getOffset ms) v = Some (Inr s) \<and> 0 \<le> s \<and>
       (s < n \<or> s = 0) \<and>
       ((\<forall>i. 0 \<le> i \<and> i < n \<longrightarrow> v < f i) \<longrightarrow> s = 0) \<and>
       ((\<exists>i. 0 \<le> i \<and> i < n \<and> f i \<le> v) \<longrightarrow>
          s < n \<and> f s \<le> v \<and> (\<forall>i. s < i \<and> i < n \<longrightarrow> v \<le> f i) \<and>
          (f s < v \<longrightarrow> (\<forall>i. s < i \<and> i < n \<longrightarrow> v < f i)))"
    using n0 by (intro findNearestBinarySearch_sorted [OF g mono n]) simp_all
  then obtain s where s: "findNearestBinarySearch 0 (n - 1) (getOffset ms) v = Some (Inr s)"
    "0 \<le> s" "s < n \<or> s = 0"
    "(\<forall>i. 0 \<le> i \<and> i < n \<longrightarrow> v < f i) \<longrightarrow> s = 0"
    "(\<exists>i. 0 \<le> i \<and> i < n \<and> f i \<le> v) \<longrightarrow>
          s < n \<and> f s \<le> v \<and> (\<forall>i. s < i \<and> i < n \<longrightarrow> v \<le> f i) \<and>
          (f s < v \<longrightarrow> (\<forall>i. s < i \<and> i < n \<longrightarrow> v < f i))"
    by blast
  have all_conv: "(\<forall>i. 0 \<le> i \<and> i < n \<longrightarrow> P (nat i)) = (\<forall>i<length ms. P i)" for P
  proof
    assume h: "\<forall>i. 0 \<le> i \<and> i < n \<longrightarrow> P (nat i)"
    show "\<forall>i<length ms. P i"
    proof (intro allI impI)
      fix i assume "i < length ms"
      with h [rule_format, of "int i"] show "P i" by (auto simp: n_def)
    qed
  next
    assume "\<forall>i<length ms. P i"
    then show "\<forall>i. 0 \<le> i \<and> i < n \<longrightarrow> P (nat i)" by (auto simp: n_def)
  qed
  have later_conv: "(\<forall>i. s < i \<and> i < n \<longrightarrow> P (nat i)) = (\<forall>i<length ms. nat s < i \<longrightarrow> P i)" for P
  proof
    assume h: "\<forall>i. s < i \<and> i < n \<longrightarrow> P (nat i)"
    show "\<forall>i<length ms. nat s < i \<longrightarrow> P i"
    proof (intro allI impI)
      fix i assume "i < length ms" "nat s < i"
      with h [rule_format, of "int i"] s(2) show "P i" by (auto simp: n_def)
    qed
  next
    assume h: "\<forall>i<length ms. nat s < i \<longrightarrow> P i"
    show "\<forall>i. s < i \<and> i < n \<longrightarrow> P (nat i)"
    proof (intro allI impI)
      fix i assume "s < i \<and> i < n"
      with h [rule_format, of "nat i"] s(2) show "P (nat i)" by (auto simp: n_def)
    qed
  qed
  have ex_conv: "(\<exists>i. 0 \<le> i \<and> i < n \<and> P (nat i)) = (\<exists>i<length ms. P i)" for P
    using all_conv [of "\<lambda>i. \<not> P i"] by blast
  have a: "(\<forall>i<length ms. v < starts ms ! i) \<longrightarrow> nat s = 0"
    using s(4) all_conv [of "\<lambda>i. v < starts ms ! i"] by (auto simp: f_def)
  have b: "(\<exists>i<length ms. starts ms ! i \<le> v) \<longrightarrow>
        nat s < length ms \<and> starts ms ! nat s \<le> v \<and>
        (\<forall>i<length ms. nat s < i \<longrightarrow> v \<le> starts ms ! i) \<and>
        (starts ms ! nat s < v \<longrightarrow> (\<forall>i<length ms. nat s < i \<longrightarrow> v < starts ms ! i))"
  proof
    assume "\<exists>i<length ms. starts ms ! i \<le> v"
    then have "\<exists>i. 0 \<le> i \<and> i < n \<and> f i \<le> v"
      using ex_conv [of "\<lambda>i. starts ms ! i \<le> v"] by (simp add: f_def)
    with s(5) have c: "s < n" "f s \<le> v" "\<forall>i. s < i \<and> i < n \<longrightarrow> v \<le> f i"
      "f s < v \<longrightarrow> (\<forall>i. s < i \<and> i < n \<longrightarrow> v < f i)"
      by simp_all
    show "nat s < length ms \<and> starts ms ! nat s \<le> v \<and>
        (\<forall>i<length ms. nat s < i \<longrightarrow> v \<le> starts ms ! i) \<and>
        (starts ms ! nat s < v \<longrightarrow> (\<forall>i<length ms. nat s < i \<longrightarrow> v < starts ms ! i))"
      using c s(2) later_conv [of "\<lambda>i. v \<le> starts ms ! i"] later_conv [of "\<lambda>i. v < starts ms ! i"]
      by (simp add: f_def n_def)
  qed
  have "findNearestBinarySearch 0 (int (length ms) - 1) (getOffset ms) v = Some (Inr (int (nat s)))"
    using s(1,2) by (simp add: n_def)
  moreover have "nat s < length ms \<or> nat s = 0"
    using s(2,3) by (auto simp: n_def)
  ultimately show ?thesis
    using a b by blast
qed

section \<open>The end of the range\<close>

lemma range_end_loop_dense:
  assumes dense: "None \<notin> set ms"
  shows "0 \<le> e0 \<Longrightarrow> e0 \<le> int (length ms) - 1 \<Longrightarrow>
     \<exists>e. range_end_loop ms (int (length ms) - 1) so os e0 = Inr (int e) \<and> e0 \<le> int e \<and>
       e < length ms \<and> (Suc e < length ms \<longrightarrow> \<not> ends ms ! e < so + os)"
proof (induction "nat (int (length ms) - 1 - e0)" arbitrary: e0 rule: less_induct)
  case less
  have in_range: "nat e0 < length ms" using less.prems by simp
  then have "ms ! nat e0 \<in> set ms" by simp
  with dense obtain m where m: "ms ! nat e0 = Some m"
    by (cases "ms ! nat e0") auto
  have get: "arr_get ms e0 = Some m"
    using m less.prems by (simp add: arr_get_def)
  have end_m: "ends ms ! nat e0 = end_m m"
    using m in_range by (simp add: ends_def)
  show ?case
  proof (cases "e0 < int (length ms) - 1 \<and> end_m m < so + os")
    case True
    then have step: "range_end_loop ms (int (length ms) - 1) so os e0 =
        range_end_loop ms (int (length ms) - 1) so os (e0 + 1)"
      by (subst range_end_loop.simps) (simp add: get)
    have "nat (int (length ms) - 1 - (e0 + 1)) < nat (int (length ms) - 1 - e0)"
      using True by simp
    from less.hyps [OF this] True less.prems
    obtain e where "range_end_loop ms (int (length ms) - 1) so os (e0 + 1) = Inr (int e)"
      "e0 + 1 \<le> int e" "e < length ms" "Suc e < length ms \<longrightarrow> \<not> ends ms ! e < so + os"
      by auto
    then show ?thesis unfolding step by (intro exI [of _ e]) simp
  next
    case False
    then have "range_end_loop ms (int (length ms) - 1) so os e0 = Inr e0"
      by (subst range_end_loop.simps) (auto simp: get)
    moreover have "Suc (nat e0) < length ms \<longrightarrow> \<not> ends ms ! nat e0 < so + os"
      using False less.prems end_m by auto
    ultimately show ?thesis
      using in_range less.prems by (intro exI [of _ "nat e0"]) simp
  qed
qed

section \<open>The located range\<close>

lemma zero_spans_eq:
  "zero_spans =
     [Some \<lparr>index = 0, start = 0, size_m = 0, end_m = 0, key = KNum 0\<rparr>,
      Some \<lparr>index = 1, start = 0, size_m = 0, end_m = 0, key = KNum 1\<rparr>,
      Some \<lparr>index = 2, start = 0, size_m = 0, end_m = 0, key = KNum 2\<rparr>]"
  by (simp add: zero_spans_def measurements_ts_def pending_min_def slice0_def
      measurements_loop.simps arr_set_def arr_get_def zero_size_def
      defaultKeyExtractor_def Let_def)

subsection \<open>An array of more than \<open>2^31\<close> spans\<close>

lemma span_chain_zero:
  "span_chain s ms \<Longrightarrow> \<forall>j<length ms. size_m (the (ms ! j)) = 0 \<Longrightarrow> j < length ms \<Longrightarrow>
   start (the (ms ! j)) = s"
proof (induction ms arbitrary: s j)
  case Nil
  then show ?case by simp
next
  case (Cons a ms)
  from Cons.prems(1) obtain m where a: "a = Some m" and m: "start m = s"
    "end_m m = start m + size_m m" and rest: "span_chain (end_m m) ms"
    by (rule span_chain_Cons)
  from Cons.prems(2) a have "size_m m = 0" by auto
  with m have e: "end_m m = s" by simp
  from Cons.prems(2) have tail: "\<forall>j<length ms. size_m (the (ms ! j)) = 0" by auto
  show ?case
  proof (cases j)
    case 0
    with a m show ?thesis by simp
  next
    case (Suc k)
    with Cons.prems(3) have "k < length ms" by simp
    from Cons.IH [OF rest tail this] e Suc show ?thesis by simp
  qed
qed

lemma zero_size_at: "size_at zero_size kx Map.empty j = 0"
  by (simp add: size_at_def zero_size_def)

lemma huge_length: "length huge_spans = 2147483649"
  by (simp add: huge_spans_def measurements_ts_full_length)

lemma huge_chain: "span_chain 0 huge_spans" "sizes_nonneg huge_spans"
  by (simp_all add: huge_spans_def measurements_ts_full_chain measurements_ts_full_nonneg
      zero_size_at)

lemma huge_getOffset:
  assumes "0 \<le> i" and "i < 2147483649"
  shows "getOffset huge_spans i = Inr 0"
proof -
  from assms have lt: "nat i < length huge_spans" by (simp add: huge_length)
  have zero: "\<forall>j<length huge_spans. size_m (the (huge_spans ! j)) = 0"
  proof (intro allI impI)
    fix j assume "j < length huge_spans"
    then have "int j < 2147483649" by (simp add: huge_length)
    from measurements_ts_full_sizes [OF this, of "[]" zero_size defaultKeyExtractor 0 Map.empty]
    show "size_m (the (huge_spans ! j)) = 0"
      by (auto simp: huge_spans_def zero_size_at)
  qed
  from span_chain_zero [OF huge_chain(1) zero lt]
  have st: "start (the (huge_spans ! nat i)) = 0" .
  from span_chain_dense [OF huge_chain(1)] lt obtain m where m: "huge_spans ! nat i = Some m"
    by (cases "huge_spans ! nat i") (auto dest: nth_mem)
  with st assms lt show ?thesis
    by (simp add: getOffset_def arr_get_def)
qed

lemma huge_getOffset_neg: "i < 0 \<Longrightarrow> getOffset huge_spans i = Inl TypeError"
  by (simp add: getOffset_def arr_get_def)

lemma huge_search:
  "findNearestBinarySearch 0 2147483648 (getOffset huge_spans) 1 = Some (Inl TypeError)"
  by (simp add: findNearestBinarySearch.simps middle_of_def toInt32_def huge_getOffset
      huge_getOffset_neg)

text \<open>
  C5, as the claim states it, fails where several spans start at the scroll offset:
  for three items of size 0 and \<open>scrollOffset = 0\<close> the search returns index 1,
  while index 2 also has \<open>start \<le> scrollOffset\<close>. It also fails for an array of more
  than \<open>2^31\<close> spans: for \<open>2^31 + 1\<close> items of size 0 and \<open>scrollOffset = 1\<close>
  the last probe is at \<open>(2^31 + 2^31) / 2 | 0 = -2^31\<close>, where there is no span, and
  the search throws.
\<close>

theorem binary_search_start_index_counterexample:
  "None \<notin> set zero_spans \<and> sorted (starts zero_spans) \<and>
   findNearestBinarySearch 0 (int (length zero_spans) - 1) (getOffset zero_spans) 0 = Some (Inr 1) \<and>
   2 < length zero_spans \<and> starts zero_spans ! 2 \<le> 0 \<and>
   None \<notin> set huge_spans \<and> sorted (starts huge_spans) \<and>
   findNearestBinarySearch 0 (int (length huge_spans) - 1) (getOffset huge_spans) 1 =
     Some (Inl TypeError)"
proof -
  have small: "None \<notin> set zero_spans \<and> sorted (starts zero_spans) \<and>
      findNearestBinarySearch 0 (int (length zero_spans) - 1) (getOffset zero_spans) 0 =
        Some (Inr 1) \<and>
      2 < length zero_spans \<and> starts zero_spans ! 2 \<le> 0"
    by (simp add: zero_spans_eq starts_def findNearestBinarySearch.simps getOffset_def arr_get_def
        middle_of_def toInt32_def)
  have dense: "None \<notin> set huge_spans"
    by (rule span_chain_dense [OF huge_chain(1)])
  have sorted: "sorted (starts huge_spans)"
    by (rule span_chain_sorted [OF huge_chain])
  have thrown: "findNearestBinarySearch 0 (int (length huge_spans) - 1) (getOffset huge_spans) 1 =
      Some (Inl TypeError)"
    by (simp add: huge_length huge_search)
  from small dense sorted thrown show ?thesis
    by (intro conjI) simp_all
qed

text \<open>
  C5, amended. For every array of at most \<open>2^31\<close> spans without holes whose starts are
  sorted (non-decreasing) and every scroll offset, the binary search returns an index
  \<open>s\<close>. It is 0 when no span has \<open>start \<le> scrollOffset\<close>. Otherwise
  \<open>start[s] \<le> scrollOffset\<close> and every later span has \<open>start \<ge> scrollOffset\<close>, even
  \<open>start > scrollOffset\<close> when \<open>start[s] < scrollOffset\<close>. When some span starts
  exactly at the scroll offset, so does span \<open>s\<close>. Every index with
  \<open>start \<le> scrollOffset\<close> is at most \<open>s\<close>, or it starts exactly at the scroll
  offset as \<open>s\<close> does: \<open>s\<close> is the greatest index with \<open>start \<le> scrollOffset\<close>
  unless several spans start exactly at the scroll offset, and then it is one of them.
\<close>

theorem binary_search_start_index:
  assumes "None \<notin> set ms" and "sorted (starts ms)" and "length ms \<le> 2 ^ 31"
  shows "\<exists>s. findNearestBinarySearch 0 (int (length ms) - 1) (getOffset ms) so = Some (Inr (int s)) \<and>
     ((\<forall>i<length ms. so < starts ms ! i) \<longrightarrow> s = 0) \<and>
     ((\<exists>i<length ms. starts ms ! i \<le> so) \<longrightarrow>
        s < length ms \<and> starts ms ! s \<le> so \<and> (\<forall>i<length ms. s < i \<longrightarrow> so \<le> starts ms ! i) \<and>
        (starts ms ! s < so \<longrightarrow> (\<forall>i<length ms. s < i \<longrightarrow> so < starts ms ! i))) \<and>
     ((\<exists>i<length ms. starts ms ! i = so) \<longrightarrow> starts ms ! s = so) \<and>
     (\<forall>i<length ms. starts ms ! i \<le> so \<longrightarrow> i \<le> s \<or> (starts ms ! i = so \<and> starts ms ! s = so)) \<and>
     ((\<forall>i<length ms. \<forall>j<length ms. starts ms ! i = so \<and> starts ms ! j = so \<longrightarrow> i = j) \<longrightarrow>
        (\<forall>i<length ms. starts ms ! i \<le> so \<longrightarrow> i \<le> s))"
proof -
  from findNearestBinarySearch_starts [OF assms, of so]
  obtain s where res: "findNearestBinarySearch 0 (int (length ms) - 1) (getOffset ms) so =
        Some (Inr (int s))"
    and none: "(\<forall>i<length ms. so < starts ms ! i) \<longrightarrow> s = 0"
    and some: "(\<exists>i<length ms. starts ms ! i \<le> so) \<longrightarrow>
        s < length ms \<and> starts ms ! s \<le> so \<and> (\<forall>i<length ms. s < i \<longrightarrow> so \<le> starts ms ! i) \<and>
        (starts ms ! s < so \<longrightarrow> (\<forall>i<length ms. s < i \<longrightarrow> so < starts ms ! i))"
    by blast
  have tie: "i \<le> s \<or> (starts ms ! i = so \<and> starts ms ! s = so)"
    if i: "i < length ms" "starts ms ! i \<le> so" for i
  proof (cases "i \<le> s")
    case True
    then show ?thesis by simp
  next
    case False
    then have later: "s < i" by simp
    from i have "\<exists>i<length ms. starts ms ! i \<le> so" by blast
    with some have s: "s < length ms" "starts ms ! s \<le> so"
      "\<forall>i<length ms. s < i \<longrightarrow> so \<le> starts ms ! i"
      "starts ms ! s < so \<longrightarrow> (\<forall>i<length ms. s < i \<longrightarrow> so < starts ms ! i)"
      by simp_all
    from s(3) i(1) later have "so \<le> starts ms ! i" by simp
    with i(2) have at_i: "starts ms ! i = so" by simp
    have "\<not> starts ms ! s < so"
    proof
      assume "starts ms ! s < so"
      with s(4) i(1) later have "so < starts ms ! i" by simp
      with at_i show False by simp
    qed
    with s(2) have "starts ms ! s = so" by simp
    with at_i show ?thesis by simp
  qed
  have exact: "starts ms ! s = so" if i: "i < length ms" "starts ms ! i = so" for i
  proof -
    from i have le: "starts ms ! i \<le> so" by simp
    with i(1) have "\<exists>i<length ms. starts ms ! i \<le> so" by blast
    with some have s: "s < length ms" "starts ms ! s \<le> so" by simp_all
    from tie [OF i(1) le] show ?thesis
    proof
      assume "i \<le> s"
      with assms(2) s(1) have "starts ms ! i \<le> starts ms ! s"
        by (simp add: sorted_iff_nth_mono starts_def)
      with i(2) s(2) show ?thesis by simp
    next
      assume "starts ms ! i = so \<and> starts ms ! s = so"
      then show ?thesis by simp
    qed
  qed
  have greatest: "i \<le> s"
    if unique: "\<forall>i<length ms. \<forall>j<length ms. starts ms ! i = so \<and> starts ms ! j = so \<longrightarrow> i = j"
      and i: "i < length ms" "starts ms ! i \<le> so" for i
  proof -
    from tie [OF i] show ?thesis
    proof
      assume "i \<le> s"
      then show ?thesis .
    next
      assume both: "starts ms ! i = so \<and> starts ms ! s = so"
      from i have "\<exists>i<length ms. starts ms ! i \<le> so" by blast
      with some have "s < length ms" by simp
      with unique both i(1) have "i = s" by blast
      then show ?thesis by simp
    qed
  qed
  have c_exact: "(\<exists>i<length ms. starts ms ! i = so) \<longrightarrow> starts ms ! s = so"
    using exact by blast
  have c_tie: "\<forall>i<length ms. starts ms ! i \<le> so \<longrightarrow>
      i \<le> s \<or> (starts ms ! i = so \<and> starts ms ! s = so)"
    using tie by (intro allI impI) simp
  have c_last: "(\<forall>i<length ms. \<forall>j<length ms. starts ms ! i = so \<and> starts ms ! j = so \<longrightarrow> i = j) \<longrightarrow>
        (\<forall>i<length ms. starts ms ! i \<le> so \<longrightarrow> i \<le> s)"
    using greatest by (intro impI allI) simp
  from res none some c_exact c_tie c_last show ?thesis
    by (intro exI [of _ s] conjI) assumption+
qed

theorem binary_search_start_index_witness:
  "None \<notin> set (measurements four_items) \<and> sorted (starts (measurements four_items)) \<and>
   length (measurements four_items) \<le> 2 ^ 31 \<and>
   findNearestBinarySearch 0 (int (length (measurements four_items)) - 1)
     (getOffset (measurements four_items)) 60 = Some (Inr 1) \<and>
   starts (measurements four_items) ! 1 \<le> 60 \<and> 60 < starts (measurements four_items) ! 2 \<and>
   None \<notin> set zero_spans \<and> sorted (starts zero_spans) \<and> length zero_spans \<le> 2 ^ 31 \<and>
   findNearestBinarySearch 0 (int (length zero_spans) - 1) (getOffset zero_spans) 0 = Some (Inr 1) \<and>
   starts zero_spans ! 1 = 0"
proof -
  have hyps: "None \<notin> set (measurements four_items)" "sorted (starts (measurements four_items))"
    "length (measurements four_items) \<le> 2 ^ 31"
    by (simp_all add: four_items_measurements starts_def)
  have eval: "findNearestBinarySearch 0 (int (length (measurements four_items)) - 1)
     (getOffset (measurements four_items)) 60 = Some (Inr 1)"
    by (simp add: four_items_measurements findNearestBinarySearch.simps getOffset_def
        arr_get_def middle_of_def toInt32_def)
  have around: "starts (measurements four_items) ! 1 \<le> 60"
    "60 < starts (measurements four_items) ! 2"
    by (simp_all add: four_items_measurements starts_def)
  have hyps0: "None \<notin> set zero_spans" "sorted (starts zero_spans)" "length zero_spans \<le> 2 ^ 31"
    by (simp_all add: zero_spans_eq starts_def)
  have eval0: "findNearestBinarySearch 0 (int (length zero_spans) - 1) (getOffset zero_spans) 0 =
      Some (Inr 1)"
    by (simp add: zero_spans_eq findNearestBinarySearch.simps getOffset_def arr_get_def
        middle_of_def toInt32_def)
  have tie0: "starts zero_spans ! 1 = 0"
    by (simp add: zero_spans_eq starts_def)
  from binary_search_start_index [OF hyps, of 60] binary_search_start_index [OF hyps0, of 0]
  show ?thesis
    using hyps eval around hyps0 eval0 tie0 by simp
qed

text \<open>
  For every array of between 1 and \<open>2^31\<close> spans that satisfies the invariants of a
  span sequence with sizes that are not negative, and for every scroll offset and
  viewport size, \<open>calculateRange\<close> returns \<open>start\<close> and \<open>end\<close> with
  \<open>0 \<le> start \<le> end \<le> length - 1\<close>, and every index \<open>i\<close> with
  \<open>Span[i].end > scrollOffset\<close> and \<open>Span[i].start < scrollOffset + outerSize\<close> lies
  between them. The bound is the length of the array.
\<close>

lemma calculateRange_span_chain:
  assumes chain: "span_chain s0 (measurements l)" and nonneg: "sizes_nonneg (measurements l)"
    and len1: "1 \<le> length (measurements l)" and len2: "length (measurements l) \<le> 2 ^ 31"
  shows "\<exists>a b. calculateRange l = Some (Inr (int a, int b)) \<and> a \<le> b \<and> b < length (measurements l) \<and>
     (\<forall>i<length (measurements l).
        scrollOffset l < ends (measurements l) ! i \<and>
        starts (measurements l) ! i < scrollOffset l + outerSize l \<longrightarrow> a \<le> i \<and> i \<le> b)"
proof -
  define ms where "ms = measurements l"
  define so where "so = scrollOffset l"
  define os where "os = outerSize l"
  have dense: "None \<notin> set ms"
    using span_chain_dense [OF chain] by (simp add: ms_def)
  have sorted: "sorted (starts ms)"
    using span_chain_sorted [OF chain nonneg] by (simp add: ms_def)
  have len: "1 \<le> length ms" "length ms \<le> 2 ^ 31"
    using len1 len2 by (simp_all add: ms_def)
  from findNearestBinarySearch_starts [OF dense sorted len(2), of so]
  obtain a where a: "findNearestBinarySearch 0 (int (length ms) - 1) (getOffset ms) so =
        Some (Inr (int a))"
    and a_range: "a < length ms \<or> a = 0"
    and a_none: "(\<forall>i<length ms. so < starts ms ! i) \<longrightarrow> a = 0"
    and a_some: "(\<exists>i<length ms. starts ms ! i \<le> so) \<longrightarrow> starts ms ! a \<le> so"
    by blast
  have a_lt: "a < length ms" using a_range len by auto
  then have "0 \<le> int a" "int a \<le> int (length ms) - 1" by simp_all
  from range_end_loop_dense [OF dense this, of so os]
  obtain b where b: "range_end_loop ms (int (length ms) - 1) so os (int a) = Inr (int b)"
    and ab: "a \<le> b" and b_lt: "b < length ms"
    and b_stop: "Suc b < length ms \<longrightarrow> \<not> ends ms ! b < so + os"
    by auto
  have result: "calculateRange l = Some (Inr (int a, int b))"
    using a b by (simp add: calculateRange_def Let_def ms_def so_def os_def)
  have visible: "a \<le> i \<and> i \<le> b"
    if i: "i < length ms" and v1: "so < ends ms ! i" and v2: "starts ms ! i < so + os" for i
  proof
    show "a \<le> i"
    proof (rule ccontr)
      assume "\<not> a \<le> i"
      then have before: "i < a" by simp
      then have "a \<noteq> 0" by simp
      with a_none obtain k where "k < length ms" "starts ms ! k \<le> so"
        by (auto simp: not_less)
      with a_some have "starts ms ! a \<le> so" by blast
      moreover have "ends ms ! i \<le> starts ms ! a"
        using span_chain_ordered [OF chain nonneg, of i a] before a_lt i
        by (simp add: ms_def starts_def ends_def)
      ultimately show False using v1 by simp
    qed
    show "i \<le> b"
    proof (rule ccontr)
      assume "\<not> i \<le> b"
      then have after: "b < i" by simp
      with i have "Suc b < length ms" by simp
      with b_stop have "so + os \<le> ends ms ! b" by simp
      moreover have "ends ms ! b \<le> starts ms ! i"
        using span_chain_ordered [OF chain nonneg, of b i] after b_lt i
        by (simp add: ms_def starts_def ends_def)
      ultimately show False using v2 by simp
    qed
  qed
  have covered: "\<forall>i<length ms. so < ends ms ! i \<and> starts ms ! i < so + os \<longrightarrow> a \<le> i \<and> i \<le> b"
    using visible by (intro allI impI) simp
  from result ab b_lt covered
  have "\<exists>a b. calculateRange l = Some (Inr (int a, int b)) \<and> a \<le> b \<and> b < length ms \<and>
     (\<forall>i<length ms. so < ends ms ! i \<and> starts ms ! i < so + os \<longrightarrow> a \<le> i \<and> i \<le> b)"
    by (intro exI [of _ a] exI [of _ b] conjI) assumption+
  then show ?thesis
    by (simp only: ms_def so_def os_def)
qed

text \<open>
  After a recomputation from index 0 the array has one span for each of the \<open>N\<close>
  items, so the bound is \<open>N - 1\<close>.
\<close>

lemma calculateRange_recomputed:
  assumes ms: "measurements l = measurements_ts prev [] N est kx ps c"
    and n: "1 \<le> N" "N \<le> 2 ^ 31" and nonneg: "\<forall>j. 0 \<le> size_at est kx c j"
  shows "\<exists>a b. calculateRange l = Some (Inr (int a, int b)) \<and> a \<le> b \<and> int b \<le> N - 1 \<and>
     (\<forall>i. int i < N \<longrightarrow>
        scrollOffset l < ends (measurements l) ! i \<and>
        starts (measurements l) ! i < scrollOffset l + outerSize l \<longrightarrow> a \<le> i \<and> i \<le> b)"
proof -
  have len: "length (measurements l) = nat N"
    by (simp add: ms measurements_ts_full_length)
  have chain: "span_chain ps (measurements l)"
    by (simp add: ms measurements_ts_full_chain)
  have sizes: "sizes_nonneg (measurements l)"
    using nonneg by (simp add: ms measurements_ts_full_nonneg)
  have l1: "1 \<le> length (measurements l)" using n(1) len by simp
  have "nat N \<le> nat (2 ^ 31)" using n(2) by (rule nat_mono)
  then have l2: "length (measurements l) \<le> 2 ^ 31" using len by simp
  from calculateRange_span_chain [OF chain sizes l1 l2]
  obtain a b where res: "calculateRange l = Some (Inr (int a, int b))" and ab: "a \<le> b"
    and b: "b < length (measurements l)"
    and cover: "\<forall>i<length (measurements l).
        scrollOffset l < ends (measurements l) ! i \<and>
        starts (measurements l) ! i < scrollOffset l + outerSize l \<longrightarrow> a \<le> i \<and> i \<le> b"
    by blast
  have b': "int b \<le> N - 1" using b len n(1) by simp
  have cover': "\<forall>i. int i < N \<longrightarrow>
        scrollOffset l < ends (measurements l) ! i \<and>
        starts (measurements l) ! i < scrollOffset l + outerSize l \<longrightarrow> a \<le> i \<and> i \<le> b"
  proof (intro allI impI)
    fix i assume i: "int i < N"
      and v: "scrollOffset l < ends (measurements l) ! i \<and>
        starts (measurements l) ! i < scrollOffset l + outerSize l"
    from i have "i < length (measurements l)" using len by simp
    with cover v show "a \<le> i \<and> i \<le> b" by simp
  qed
  from res ab b' cover' show ?thesis
    by (intro exI [of _ a] exI [of _ b] conjI) assumption+
qed

subsection \<open>A range beyond the item count\<close>

lemma four_rendered_eq:
  "four_rendered =
     \<lparr>latestRef = \<lparr>outerSize = 50, scrollOffset = 120,
        measurements =
          [Some \<lparr>index = 0, start = 0, size_m = 50, end_m = 50, key = KNum 0\<rparr>,
           Some \<lparr>index = 1, start = 50, size_m = 50, end_m = 100, key = KNum 1\<rparr>,
           Some \<lparr>index = 2, start = 100, size_m = 50, end_m = 150, key = KNum 2\<rparr>,
           Some \<lparr>index = 3, start = 150, size_m = 50, end_m = 200, key = KNum 3\<rparr>],
        latest_totalSize = 200\<rparr>,
      scrollOffsetWithAdjustmentsRef = 120, measuredCache = Map.empty,
      pendingMeasuredCacheIndexesRef = [], scroll_calls = []\<rparr>"
  by (simp add: four_rendered_def useVirtual_measurements_def useVirtual_scroll_def
      hook_initial_def measurements_ts_def pending_min_def slice0_def measurements_loop.simps
      arr_set_def arr_get_def defaultEstimateSize_def defaultKeyExtractor_def totalSize_def Let_def)

lemma item3_measured_eq:
  "item3_measured =
     \<lparr>latestRef = \<lparr>outerSize = 50, scrollOffset = 120,
        measurements =
          [Some \<lparr>index = 0, start = 0, size_m = 50, end_m = 50, key = KNum 0\<rparr>,
           Some \<lparr>index = 1, start = 50, size_m = 50, end_m = 100, key = KNum 1\<rparr>,
           Some \<lparr>index = 2, start = 100, size_m = 50, end_m = 150, key = KNum 2\<rparr>,
           Some \<lparr>index = 3, start = 150, size_m = 50, end_m = 200, key = KNum 3\<rparr>],
        latest_totalSize = 200\<rparr>,
      scrollOffsetWithAdjustmentsRef = 120, measuredCache = [''3'' \<mapsto> 70],
      pendingMeasuredCacheIndexesRef = [3], scroll_calls = []\<rparr>"
  by (simp add: item3_measured_def four_rendered_eq measureRef_def arr_get_def
      defaultMeasureSize_def tall_element_def key_names)

lemma count_reduced_eq:
  "latestRef count_reduced =
     \<lparr>outerSize = 50, scrollOffset = 120,
      measurements =
        [Some \<lparr>index = 0, start = 0, size_m = 50, end_m = 50, key = KNum 0\<rparr>,
         Some \<lparr>index = 1, start = 50, size_m = 50, end_m = 100, key = KNum 1\<rparr>,
         Some \<lparr>index = 2, start = 100, size_m = 50, end_m = 150, key = KNum 2\<rparr>],
      latest_totalSize = 100\<rparr>"
  by (simp add: count_reduced_def item3_measured_eq useVirtual_measurements_def
      useVirtual_scroll_def measurements_ts_def pending_min_def slice0_def
      measurements_loop.simps arr_get_def totalSize_def Let_def)

lemma two_recomputed_eq:
  "two_recomputed =
     \<lparr>outerSize = 50, scrollOffset = 120,
      measurements =
        [Some \<lparr>index = 0, start = 0, size_m = 50, end_m = 50, key = KNum 0\<rparr>,
         Some \<lparr>index = 1, start = 50, size_m = 50, end_m = 100, key = KNum 1\<rparr>],
      latest_totalSize = 100\<rparr>"
  by (simp add: two_recomputed_def item3_measured_eq measurements_ts_def pending_min_def
      slice0_def measurements_loop.simps arr_set_def arr_get_def defaultEstimateSize_def
      defaultKeyExtractor_def Let_def key_names)

text \<open>
  C4. In \<open>index.ts\<close> the spans below the least pending index are kept as they are,
  also when the item count has dropped below that index. In history C the list has four
  items of size 50, the viewport of 50 is scrolled to 120 and item 3 reports its size;
  the render that follows has two items. It keeps three spans, and \<open>calculateRange\<close>,
  which takes its bound from the length of the array, returns the interval from 2 to 2:
  index 2 is outside \<open>[0, N - 1] = [0, 1]\<close>. With the two spans of a recomputation
  from index 0 the interval is from 1 to 1.
\<close>

theorem calculateRange_beyond_item_count:
  "pendingMeasuredCacheIndexesRef item3_measured = [3] \<and>
   length (measurements (latestRef count_reduced)) = 3 \<and>
   scrollOffset (latestRef count_reduced) = 120 \<and> outerSize (latestRef count_reduced) = 50 \<and>
   calculateRange (latestRef count_reduced) = Some (Inr (2, 2)) \<and>
   length (measurements two_recomputed) = 2 \<and>
   calculateRange two_recomputed = Some (Inr (1, 1))"
  by (simp add: item3_measured_eq count_reduced_eq two_recomputed_eq calculateRange_def
      findNearestBinarySearch.simps getOffset_def arr_get_def middle_of_def toInt32_def
      range_end_loop.simps)

end
